theory Spec2Isabelle
  imports Complex_Main "HOL-Library.Multiset" "HOL-Library.Log_Nat"
begin

section \<open>The quiz game: generators, scoring, round session, orchestrator\<close>

text \<open>
  The development follows the TypeScript sources: the question and option generators of
  \<^verbatim>\<open>MultiplicationGame\<close> and \<^verbatim>\<open>WordMathGame\<close>, the scoring expression of the four
  mini-games, the round session that the four components implement with React state, refs
  and effects, and the orchestrator \<^verbatim>\<open>App\<close> with \<^verbatim>\<open>GamesContainer\<close>.

  Conventions. JavaScript numbers that the code only ever holds as integers (answers,
  levels, seconds, scores) are \<^typ>\<open>int\<close>. Where the code computes with numbers that are not
  integers, the values of \<^verbatim>\<open>Math.random()\<close> in the generators and the scoring factor in
  the handlers, the products are modelled in binary64 arithmetic. A value of
  \<^verbatim>\<open>Math.random()\<close> is a double \<open>r\<close> with \<open>0 \<le> r < 1\<close> supplied from outside. React state is
  a record; a state setter is a record update; an effect is a function on the record that
  runs when the component has rendered again.
\<close>

subsection \<open>Binary64 arithmetic\<close>

text \<open>
  A finite double is \<open>m * 2 ^ e\<close> with \<open>\<bar>m\<bar> < 2 ^ 53\<close>, written as the pair \<open>(m, e)\<close>. A product
  is the exact product rounded to 53 significant bits, ties to even (the exponent range
  of the format is never left by the magnitudes that occur here). \<^verbatim>\<open>Math.floor\<close> of a
  double is the floor of its value.
\<close>

type_synonym binary64 = "int \<times> int"

definition valueOf :: "binary64 \<Rightarrow> real" where
  "valueOf x = of_int (fst x) * 2 powr of_int (snd x)"

definition round53 :: "binary64 \<Rightarrow> binary64" where
  "round53 x =
     (let a = \<bar>fst x\<bar>; s = bitlen a - 53 in
      if s \<le> 0 then x
      else
        (let q = a div 2 ^ nat s;
             r = a mod 2 ^ nat s;
             h = 2 ^ nat (s - 1);
             q' = (if r > h \<or> (r = h \<and> odd q) then q + 1 else q)
         in (sgn (fst x) * q', snd x + s)))"

definition fmul :: "binary64 \<Rightarrow> binary64 \<Rightarrow> binary64" where
  "fmul x y = round53 (fst x * fst y, snd x + snd y)"

definition ofInt :: "int \<Rightarrow> binary64" where
  "ofInt n = (n, 0)"

definition ffloor :: "binary64 \<Rightarrow> int" where
  "ffloor x = (if 0 \<le> snd x then fst x * 2 ^ nat (snd x) else fst x div 2 ^ nat (- snd x))"

subsection \<open>Problem and option generators\<close>

text \<open>
  \<^verbatim>\<open>generateProblem(difficulty)\<close> draws two operands with two calls of \<^verbatim>\<open>Math.random()\<close>.
  The explanation text of the source is presentation only and is left out of the record.
\<close>

record word_problem =
  story :: string
  imagePrompt :: string
  answer :: int

record mult_problem =
  num1 :: int
  num2 :: int
  answer :: int

text \<open>A call of a generator inside a \<^verbatim>\<open>try\<close> block either throws or returns a value.\<close>

datatype 'x outcome = Throws | Returns 'x

definition generateProblem :: "int \<Rightarrow> binary64 \<times> binary64 \<Rightarrow> mult_problem" where
  "generateProblem difficulty rr =
     (let maxNum = min 10 (3 + difficulty);
          n1 = ffloor (fmul (fst rr) (ofInt maxNum)) + 1;
          n2 = ffloor (fmul (snd rr) (ofInt maxNum)) + 1
      in \<lparr>num1 = n1, num2 = n2, answer = n1 * n2\<rparr>)"

text \<open>
  \<^verbatim>\<open>generateWordProblem(difficulty)\<close> of \<^verbatim>\<open>WordMathGame\<close> draws two operands in the same
  way and then builds its array of story templates. The first template is a template
  literal that contains \<^verbatim>\<open>${player}\<close>. The function is declared at module level, where
  no variable \<^verbatim>\<open>player\<close> is in scope (the prop of that name is local to the component),
  so evaluating the literal throws a \<^verbatim>\<open>ReferenceError\<close>: on every call, whatever the
  difficulty and the random draws, and before anything is returned.
\<close>

definition generateWordProblem :: "int \<Rightarrow> binary64 \<times> binary64 \<Rightarrow> word_problem outcome" where
  "generateWordProblem difficulty rr = Throws"

text \<open>
  \<^verbatim>\<open>generateOptions(correctAnswer, difficulty)\<close>. Every pass of the \<^verbatim>\<open>while\<close> loop calls
  \<^verbatim>\<open>Math.random()\<close> twice, first for the offset and then for the sign; \<open>rnd k\<close> is the
  pair of values the \<open>k\<close>-th pass receives.
\<close>

type_synonym draws = "nat \<Rightarrow> binary64 \<times> binary64"

text \<open>The values \<^verbatim>\<open>Math.random()\<close> can return: the doubles from 0 up to, not including, 1.\<close>

definition isRandom :: "binary64 \<Rightarrow> bool" where
  "isRandom r = (0 \<le> fst r \<and> fst r < 2 ^ 53 \<and> valueOf r < 1)"

definition legal :: "draws \<Rightarrow> bool" where
  "legal rnd = (\<forall>k. isRandom (fst (rnd k)) \<and> isRandom (snd (rnd k)))"

definition offsetOf :: "int \<Rightarrow> binary64 \<Rightarrow> int" where
  "offsetOf difficulty r = ffloor (fmul r (ofInt (7 - min difficulty 5))) + 1"

definition signOf :: "binary64 \<Rightarrow> int" where
  "signOf r = (if valueOf r > 1 / 2 then 1 else - 1)"

definition wrongAnswer :: "int \<Rightarrow> int \<Rightarrow> binary64 \<times> binary64 \<Rightarrow> int" where
  "wrongAnswer correctAnswer difficulty rr =
     correctAnswer + offsetOf difficulty (fst rr) * signOf (snd rr)"

text \<open>
  The loop has no iteration bound, so it is a partial function: \<open>None\<close> is "never leaves
  the loop". \<open>options\<close> is the array built so far, \<open>k\<close> counts the passes.
\<close>

partial_function (option) collect ::
  "int \<Rightarrow> int \<Rightarrow> draws \<Rightarrow> nat \<Rightarrow> int list \<Rightarrow> int list option" where
  "collect correctAnswer difficulty rnd k options =
     (if length options < 4 then
        (let w = wrongAnswer correctAnswer difficulty (rnd k) in
         if w > 0 \<and> w \<notin> set options
         then collect correctAnswer difficulty rnd (Suc k) (options @ [w])
         else collect correctAnswer difficulty rnd (Suc k) options)
      else Some options)"

text \<open>
  The function ends with \<^verbatim>\<open>options.sort(() => Math.random() - 0.5)\<close>. With a comparator
  that is not consistent the order \<^verbatim>\<open>sort\<close> leaves is implementation-defined; the array
  keeps its elements. So \<open>r\<close> is a possible return value exactly when the loop has
  returned and \<open>r\<close> is an arrangement of the collected array.
\<close>

definition generateOptions_returns :: "int \<Rightarrow> int \<Rightarrow> draws \<Rightarrow> int list \<Rightarrow> bool" where
  "generateOptions_returns correctAnswer difficulty rnd r =
     (case collect correctAnswer difficulty rnd 0 [correctAnswer] of
        None \<Rightarrow> False
      | Some options \<Rightarrow> mset r = mset options)"

text \<open>
  The distinct values the first \<open>n\<close> passes draw that the loop can accept as decoys:
  positive and different from the correct answer.
\<close>

definition drawn :: "int \<Rightarrow> int \<Rightarrow> draws \<Rightarrow> nat \<Rightarrow> int list" where
  "drawn correctAnswer difficulty rnd n =
     remdups (filter (\<lambda>w. 0 < w \<and> w \<noteq> correctAnswer)
       (map (\<lambda>j. wrongAnswer correctAnswer difficulty (rnd j)) [0..<n]))"

text \<open>The positive values that the passes \<open>k\<close>, ..., \<open>k + n - 1\<close> propose.\<close>

definition pending :: "int \<Rightarrow> int \<Rightarrow> draws \<Rightarrow> nat \<Rightarrow> nat \<Rightarrow> int set" where
  "pending c d rnd k n = {w. \<exists>j. k \<le> j \<and> j < k + n \<and> w = wrongAnswer c d (rnd j) \<and> 0 < w}"

text \<open>
  A sequence of draws that yields three different decoys in its first three passes: the
  doubles 0, \<open>1/2\<close> and \<open>3/4\<close> for the offset with \<open>3/4\<close> for the sign, and at difficulty 5,
  where there are two offsets only, 0 with \<open>1/4\<close> in the third pass.
\<close>

definition fairDraws :: "int \<Rightarrow> draws" where
  "fairDraws difficulty k =
     (if k = 0 then ((0, 0), (3, - 2))
      else if k = 1 then ((1, - 1), (3, - 2))
      else if difficulty \<le> 4 then ((3, - 2), (3, - 2))
      else ((0, 0), (1, - 2)))"

subsection \<open>Scoring\<close>

text \<open>
  The handlers compute \<^verbatim>\<open>Math.max(1, Math.floor(timeLeft * (difficulty * 0.5)))\<close>
  (multiplication, word math) and the same with \<^verbatim>\<open>0.3\<close> (opposites, animals). The
  literal \<^verbatim>\<open>0.3\<close> is the double \<open>5404319552844595 * 2 ^ - 54\<close>, the literal \<^verbatim>\<open>0.5\<close> is
  \<open>1 * 2 ^ - 1\<close>.
\<close>

definition factor05 :: binary64 where
  "factor05 = (1, - 1)"

definition factor03 :: binary64 where
  "factor03 = (5404319552844595, - 54)"

definition pointsEarned :: "binary64 \<Rightarrow> int \<Rightarrow> int \<Rightarrow> int" where
  "pointsEarned k timeLeft difficulty =
     max 1 (ffloor (fmul (ofInt timeLeft) (fmul (ofInt difficulty) k)))"

text \<open>
  When \<open>3 * t * d / 10\<close> is an integer \<open>N\<close>, the product computed with the factor \<^verbatim>\<open>0.3\<close>
  can be the double just below \<open>N\<close>. For the difficulties 1 to 10 that happens exactly
  when the difficulty is 3, 6 or 9 and \<open>N\<close> is greater than nine eighths of the largest
  power of two that is not greater than \<open>N\<close> (\<open>bitlen N\<close> is the number of binary digits of
  \<open>N\<close>).
\<close>

definition roundedBelow :: "int \<Rightarrow> int \<Rightarrow> bool" where
  "roundedBelow t d =
     (10 dvd t * d \<and> 3 dvd d
      \<and> 9 * 2 ^ nat (bitlen (3 * t * d div 10) - 1) < 8 * (3 * t * d div 10))"


subsection \<open>The round session\<close>

text \<open>
  The four mini-game components hold the same state and run the same effects and
  handlers; they differ in the question they show, in the field that holds the correct
  answer (\<^verbatim>\<open>problem.answer\<close>, \<^verbatim>\<open>currentAnimal.name\<close>, \<^verbatim>\<open>currentPair.opposite\<close>), in
  the scoring factor and in the canned options. The record is the state of one mounted
  component: \<open>'q\<close> is the type of the question, \<open>'a\<close> the type of an option.

  \<^item> \<open>mountedRef\<close> is \<^verbatim>\<open>mountedRef.current\<close>.
  \<^item> \<open>timerRef\<close> says that the timeout whose id \<^verbatim>\<open>timerRef.current\<close> holds is pending.
    Every place that starts a tick timer clears the one the ref names first, so at most
    one is pending and the ref names it.
  \<^item> \<open>completionRef\<close> likewise, together with the arguments that the pending callback
    passes to \<^verbatim>\<open>onComplete\<close> (they are fixed when the timer is started).
  \<^item> \<open>timerCleanup\<close> and \<open>timeoutCleanup\<close> say that the last run of the countdown effect,
    respectively of the timeout effect, returned its cleanup function.
  \<^item> \<open>completed\<close> lists the calls of \<^verbatim>\<open>onComplete\<close> made so far.
  \<^item> the other fields are the \<^verbatim>\<open>useState\<close> variables of the same names
    (\<open>sessionScore\<close> is the state variable \<^verbatim>\<open>score\<close>).
\<close>

record ('q, 'a) session =
  mountedRef :: bool
  timerRef :: bool
  completionRef :: "(int \<times> bool) option"
  gameInitialized :: bool
  problem :: "'q option"
  options :: "'a list"
  selectedOption :: "'a option"
  isCorrect :: "bool option"
  timeLeft :: int
  sessionScore :: int
  showExplanation :: bool
  imageLoaded :: bool
  imageError :: bool
  isTransitioning :: bool
  timerCleanup :: bool
  timeoutCleanup :: bool
  completed :: "(int \<times> bool) list"

text \<open>
  What distinguishes the components: the field with the correct answer, the scoring
  factor, the canned options of the \<^verbatim>\<open>catch\<close> block.
\<close>

record ('q, 'a) game =
  correctOf :: "'q \<Rightarrow> 'a"
  factor :: binary64
  fallbackOptions :: "'a list"

definition MultiplicationGame :: "(mult_problem, int) game" where
  "MultiplicationGame = \<lparr>correctOf = mult_problem.answer, factor = factor05,
     fallbackOptions = [4, 6, 8, 10]\<rparr>"

definition WordMathGame :: "(word_problem, int) game" where
  "WordMathGame = \<lparr>correctOf = word_problem.answer, factor = factor05,
     fallbackOptions = [6, 8, 10, 12]\<rparr>"

text \<open>
  \<^verbatim>\<open>AnimalGame\<close> and \<^verbatim>\<open>OppositesGame\<close> ask for a word. Of the definitions below they
  share the handler \<open>handleOptionSelect\<close>, the timeout effect, the callbacks and the
  cleanups; their \<^verbatim>\<open>initializeGame\<close> stores the question only after the options are
  computed, and the countdown of \<^verbatim>\<open>OppositesGame\<close> tests \<^verbatim>\<open>timeLeft\<close> in the callback
  instead of the effect.
\<close>

record animal =
  name :: string
  prompt :: string

record oppositesPair =
  word :: string
  opposite :: string
  prompt :: string

definition AnimalGame :: "(animal, string) game" where
  "AnimalGame = \<lparr>correctOf = animal.name, factor = factor03,
     fallbackOptions = [''dog'', ''cat'', ''elephant'', ''lion'']\<rparr>"

definition OppositesGame :: "(oppositesPair, string) game" where
  "OppositesGame = \<lparr>correctOf = opposite, factor = factor03,
     fallbackOptions = [''small'', ''cold'', ''down'', ''slow'']\<rparr>"

text \<open>The state of the first render: the initial values of \<^verbatim>\<open>useState\<close> and \<^verbatim>\<open>useRef\<close>.\<close>

definition firstRender :: "int \<Rightarrow> ('q, 'a) session" where
  "firstRender timerDuration =
     \<lparr>mountedRef = True, timerRef = False, completionRef = None, gameInitialized = False,
      problem = None, options = [], selectedOption = None, isCorrect = None,
      timeLeft = timerDuration, sessionScore = 0, showExplanation = False, imageLoaded = False,
      imageError = False, isTransitioning = False, timerCleanup = False,
      timeoutCleanup = False, completed = []\<rparr>"

text \<open>
  \<^verbatim>\<open>initializeGame\<close> of \<^verbatim>\<open>MultiplicationGame\<close> and \<^verbatim>\<open>WordMathGame\<close>. The two
  generator calls of the \<^verbatim>\<open>try\<close> block either return or throw; their outcomes are
  arguments. \<^verbatim>\<open>setProblem\<close> is called between the two, so it has taken place when the
  second call throws.
\<close>

definition catchBlock :: "('q, 'a) game \<Rightarrow> ('q, 'a) session \<Rightarrow> ('q, 'a) session" where
  "catchBlock g s =
     (if mountedRef s
      then s\<lparr>options := fallbackOptions g, imageError := True, gameInitialized := True\<rparr>
      else s)"

definition initializeGame ::
  "('q, 'a) game \<Rightarrow> int \<Rightarrow> 'q outcome \<Rightarrow> 'a list outcome \<Rightarrow> ('q, 'a) session \<Rightarrow> ('q, 'a) session" where
  "initializeGame g timerDuration newProblem newOptions s =
     (if \<not> mountedRef s then s
      else case newProblem of
        Throws \<Rightarrow> catchBlock g s
      | Returns p \<Rightarrow>
          (let s1 = s\<lparr>problem := Some p\<rparr> in
           case newOptions of
             Throws \<Rightarrow> catchBlock g s1
           | Returns os \<Rightarrow>
               s1\<lparr>options := os, selectedOption := None, isCorrect := None,
                  timeLeft := timerDuration, showExplanation := False, imageLoaded := False,
                  imageError := False, isTransitioning := False, gameInitialized := True\<rparr>))"

text \<open>
  The countdown effect and its cleanup. The effect body clears the timer the ref names
  and starts a new one.
\<close>

definition timerEffect_cleanup :: "('q, 'a) session \<Rightarrow> ('q, 'a) session" where
  "timerEffect_cleanup s =
     (if timerCleanup s then s\<lparr>timerRef := False, timerCleanup := False\<rparr> else s)"

definition timerEffect :: "('q, 'a) session \<Rightarrow> ('q, 'a) session" where
  "timerEffect s =
     (if \<not> gameInitialized s \<or> timeLeft s \<le> 0 \<or> selectedOption s \<noteq> None
         \<or> isTransitioning s \<or> problem s = None
      then s
      else s\<lparr>timerRef := True, timerCleanup := True\<rparr>)"

text \<open>The callback of the tick timer.\<close>

definition tickCallback :: "('q, 'a) session \<Rightarrow> ('q, 'a) session" where
  "tickCallback s = (if mountedRef s then s\<lparr>timeLeft := timeLeft s - 1\<rparr> else s)"

text \<open>The timeout effect and its cleanup.\<close>

definition timeoutEffect_cleanup :: "('q, 'a) session \<Rightarrow> ('q, 'a) session" where
  "timeoutEffect_cleanup s =
     (if timeoutCleanup s then s\<lparr>completionRef := None, timeoutCleanup := False\<rparr> else s)"

definition timeoutEffect :: "('q, 'a) game \<Rightarrow> ('q, 'a) session \<Rightarrow> ('q, 'a) session" where
  "timeoutEffect g s =
     (case problem s of
        None \<Rightarrow> s
      | Some p \<Rightarrow>
          if \<not> mountedRef s \<or> timeLeft s > 0 \<or> selectedOption s \<noteq> None \<or> isTransitioning s
          then s
          else s\<lparr>selectedOption := Some (correctOf g p), isCorrect := Some False,
                 isTransitioning := True, completionRef := Some (sessionScore s, False),
                 timeoutCleanup := True\<rparr>)"

text \<open>The callback of a completion timer started with the arguments \<open>(points, correct)\<close>.\<close>

definition completionCallback :: "int \<times> bool \<Rightarrow> ('q, 'a) session \<Rightarrow> ('q, 'a) session" where
  "completionCallback args s =
     (if mountedRef s then s\<lparr>completed := completed s @ [args]\<rparr> else s)"

text \<open>
  After a render React runs, for every effect with a changed dependency, the cleanup that
  its previous run returned, and then the effect bodies, in the order of the source. The
  model runs both effects after every render that follows an event. That is what React
  does when \<^verbatim>\<open>timeLeft\<close>, \<^verbatim>\<open>selectedOption\<close> or \<^verbatim>\<open>problem\<close> has changed, which both
  dependency lists contain; in the one remaining case, the \<^verbatim>\<open>catch\<close> block of
  \<^verbatim>\<open>initializeGame\<close>, the timeout effect that React would skip has no cleanup to run
  between events and returns at the guard at which it returned before. When the timeout
  effect has set state, the component renders once more and the effects run again; then
  the timeout effect returns at its guard, so two rounds reach a stable state.
\<close>

definition effects :: "('q, 'a) game \<Rightarrow> ('q, 'a) session \<Rightarrow> ('q, 'a) session" where
  "effects g s = timeoutEffect g (timerEffect (timeoutEffect_cleanup (timerEffect_cleanup s)))"

definition render :: "('q, 'a) game \<Rightarrow> ('q, 'a) session \<Rightarrow> ('q, 'a) session" where
  "render g s = (let s' = effects g s in if timeoutCleanup s' then effects g s' else s')"

text \<open>
  Mounting: the lifecycle effect sets \<^verbatim>\<open>mountedRef.current\<close> and calls
  \<^verbatim>\<open>initializeGame\<close>; the other two effects return at their guards in the first
  render, and run again after the render that shows the initialised state.
\<close>

definition mount ::
  "('q, 'a) game \<Rightarrow> int \<Rightarrow> 'q outcome \<Rightarrow> 'a list outcome \<Rightarrow> ('q, 'a) session" where
  "mount g timerDuration newProblem newOptions =
     render g (initializeGame g timerDuration newProblem newOptions
       ((firstRender timerDuration)\<lparr>mountedRef := True\<rparr>))"

text \<open>
  The cleanup of the lifecycle effect; at unmount React also runs the cleanups of the
  other two effects, which clear the same timers.
\<close>

definition unmount :: "('q, 'a) session \<Rightarrow> ('q, 'a) session" where
  "unmount s =
     s\<lparr>mountedRef := False, timerRef := False, completionRef := None,
       timerCleanup := False, timeoutCleanup := False\<rparr>"

text \<open>
  The lifecycle effect depends on \<^verbatim>\<open>initializeGame\<close>, which is a new function when the
  props \<^verbatim>\<open>difficulty\<close> or \<^verbatim>\<open>timerDuration\<close> have changed. React then runs the cleanup
  and the effect again in the mounted component: a new question, with the state
  variable \<^verbatim>\<open>score\<close> as it is.
\<close>

definition reinitialize ::
  "('q, 'a) game \<Rightarrow> int \<Rightarrow> 'q outcome \<Rightarrow> 'a list outcome \<Rightarrow> ('q, 'a) session \<Rightarrow> ('q, 'a) session" where
  "reinitialize g timerDuration newProblem newOptions s =
     render g (initializeGame g timerDuration newProblem newOptions
       (s\<lparr>timerRef := False, completionRef := None, mountedRef := True\<rparr>))"

text \<open>\<^verbatim>\<open>handleOptionSelect(option)\<close>, with the prop \<^verbatim>\<open>difficulty\<close> of the render.\<close>

definition handleOptionSelect ::
  "('q, 'a) game \<Rightarrow> int \<Rightarrow> 'a \<Rightarrow> ('q, 'a) session \<Rightarrow> ('q, 'a) session" where
  "handleOptionSelect g difficulty option s =
     (case problem s of
        None \<Rightarrow> s
      | Some p \<Rightarrow>
          if selectedOption s \<noteq> None \<or> \<not> gameInitialized s \<or> isTransitioning s then s
          else
            (let correct = (option = correctOf g p);
                 earned = (if correct then pointsEarned (factor g) (timeLeft s) difficulty else 0);
                 newScore = (if correct then sessionScore s + earned else sessionScore s)
             in s\<lparr>isTransitioning := True, selectedOption := Some option,
                  isCorrect := Some correct,
                  sessionScore := (if correct then newScore else sessionScore s),
                  completionRef := Some (newScore, correct)\<rparr>))"

text \<open>
  The events of a mounted session. The browser runs the callback of a pending timer
  (\<open>Tick\<close>, \<open>Completion\<close>); the player clicks an option (\<open>Select\<close>); the component is
  unmounted (\<open>Unmount\<close>). \<open>LateTick\<close> and \<open>LateCompletion\<close> stand for a callback that runs
  although its timer is no longer the pending one. A handler that returns at its guard
  sets no state, so no render follows.
\<close>

datatype 'a event =
  Tick | Completion | Select 'a | LateTick | LateCompletion int bool | Unmount

definition fireTick :: "('q, 'a) game \<Rightarrow> ('q, 'a) session \<Rightarrow> ('q, 'a) session" where
  "fireTick g s =
     (if timerRef s
      then (let s1 = tickCallback (s\<lparr>timerRef := False\<rparr>)
            in if mountedRef s then render g s1 else s1)
      else s)"

definition fireCompletion :: "('q, 'a) session \<Rightarrow> ('q, 'a) session" where
  "fireCompletion s =
     (case completionRef s of
        None \<Rightarrow> s
      | Some args \<Rightarrow> completionCallback args (s\<lparr>completionRef := None\<rparr>))"

definition select :: "('q, 'a) game \<Rightarrow> int \<Rightarrow> 'a \<Rightarrow> ('q, 'a) session \<Rightarrow> ('q, 'a) session" where
  "select g difficulty option s =
     (let s' = handleOptionSelect g difficulty option s in if s' = s then s else render g s')"

fun step :: "('q, 'a) game \<Rightarrow> int \<Rightarrow> 'a event \<Rightarrow> ('q, 'a) session \<Rightarrow> ('q, 'a) session" where
  "step g d Tick s = fireTick g s"
| "step g d Completion s = fireCompletion s"
| "step g d (Select option) s = select g d option s"
| "step g d LateTick s = (let s1 = tickCallback s in if s1 = s then s else render g s1)"
| "step g d (LateCompletion points correct) s = completionCallback (points, correct) s"
| "step g d Unmount s = unmount s"

fun run :: "('q, 'a) game \<Rightarrow> int \<Rightarrow> 'a event list \<Rightarrow> ('q, 'a) session \<Rightarrow> ('q, 'a) session" where
  "run g d [] s = s"
| "run g d (e # es) s = run g d es (step g d e s)"

text \<open>The guard of the component's render: the loading text is shown, no question.\<close>

definition showsLoading :: "('q, 'a) session \<Rightarrow> bool" where
  "showsLoading s = (\<not> gameInitialized s \<or> problem s = None)"

text \<open>
  Shapes of the state used in the proofs. \<open>armed p n\<close>: the question \<open>p\<close> is shown, nothing
  is selected, \<open>n\<close> seconds are left and no completion timer is pending. \<open>counting p n\<close>:
  moreover \<open>n\<close> is positive and the tick timer runs. \<open>timedOut g p\<close>: the session has locked
  itself with the correct answer.
\<close>

definition armed :: "'q \<Rightarrow> int \<Rightarrow> ('q, 'a) session \<Rightarrow> bool" where
  "armed p n s =
     (mountedRef s \<and> gameInitialized s \<and> problem s = Some p \<and> selectedOption s = None
      \<and> \<not> isTransitioning s \<and> timeLeft s = n \<and> \<not> timeoutCleanup s \<and> completionRef s = None)"

definition counting :: "'q \<Rightarrow> int \<Rightarrow> ('q, 'a) session \<Rightarrow> bool" where
  "counting p n s = (armed p n s \<and> 1 \<le> n \<and> timerRef s \<and> timerCleanup s)"

definition timedOut :: "('q, 'a) game \<Rightarrow> 'q \<Rightarrow> ('q, 'a) session \<Rightarrow> bool" where
  "timedOut g p s =
     (selectedOption s = Some (correctOf g p) \<and> isCorrect s = Some False \<and> isTransitioning s
      \<and> timeLeft s = 0 \<and> \<not> timerRef s)"

text \<open>
  The events that the browser and the player can cause: all but the callback of a
  completion timer that has been cleared. \<open>atMostOnce\<close> is the invariant behind "one
  completion for each initialisation": a completion timer is pending or \<^verbatim>\<open>onComplete\<close>
  has been called only after an option was selected, never both, and \<^verbatim>\<open>onComplete\<close>
  has been called at most once.
\<close>

fun genuine :: "'a event \<Rightarrow> bool" where
  "genuine (LateCompletion points correct) = False"
| "genuine e = True"

definition atMostOnce :: "('q, 'a) session \<Rightarrow> bool" where
  "atMostOnce s =
     ((completionRef s = None \<or> completed s = []) \<and> length (completed s) \<le> 1
      \<and> (selectedOption s = None \<longrightarrow> completionRef s = None \<and> completed s = []))"

subsection \<open>The orchestrator: \<^verbatim>\<open>App\<close> and \<^verbatim>\<open>GamesContainer\<close>\<close>

record player =
  name :: string
  age :: int
  grade :: string
  score :: int
  level :: int
  correctAnswers :: int

datatype GameState = Selection | Opposites | Multiplication | Animals | Wordmath | Results

record GameSettings =
  timerDuration :: int
  totalRounds :: int
  difficulty :: int

record app =
  gameState :: GameState
  currentPlayerIndex :: nat
  players :: "player list"
  roundsPlayed :: int
  gameSettings :: GameSettings
  showLevelUp :: "nat option"
  error :: "string option"

definition defaultPlayers :: "player list" where
  "defaultPlayers =
     [\<lparr>name = ''Alex (Pre-K)'', age = 5, grade = ''Pre-K'', score = 0, level = 1, correctAnswers = 0\<rparr>,
      \<lparr>name = ''Player 2'', age = 7, grade = ''1st Grade'', score = 0, level = 1, correctAnswers = 0\<rparr>]"

definition initialApp :: app where
  "initialApp =
     \<lparr>gameState = Selection, currentPlayerIndex = 0, players = defaultPlayers, roundsPlayed = 0,
      gameSettings = \<lparr>timerDuration = 20, totalRounds = 10, difficulty = 1\<rparr>,
      showLevelUp = None, error = None\<rparr>"

text \<open>
  \<^verbatim>\<open>checkForLevelUp(index)\<close> reads \<^verbatim>\<open>players[index]\<close> and, when the count of correct
  answers has reached five times the level and the level is below 10, queues the updater
  that raises the level by one and shows the notice.
\<close>

definition checkForLevelUp :: "nat \<Rightarrow> app \<Rightarrow> app" where
  "checkForLevelUp index st =
     (let p = players st ! index; levelThreshold = level p * 5 in
      if correctAnswers p \<ge> levelThreshold \<and> level p < 10
      then st\<lparr>players := (players st)[index := p\<lparr>level := level p + 1\<rparr>],
              showLevelUp := Some index\<rparr>
      else st)"

text \<open>The callback of the three-second timer that \<^verbatim>\<open>checkForLevelUp\<close> starts.\<close>

definition hideLevelUp :: "app \<Rightarrow> app" where
  "hideLevelUp st = st\<lparr>showLevelUp := None\<rparr>"

text \<open>
  \<^verbatim>\<open>updatePlayerScore(points, isCorrect)\<close> passes \<^verbatim>\<open>setPlayers\<close> the updater that adds
  the points and counts the correct answer, then calls \<^verbatim>\<open>checkForLevelUp\<close> in the same
  handler. The handler is called from the completion timer of a mini-game, three seconds
  after the selection. The mini-game has rendered since \<^verbatim>\<open>App\<close> was updated last, so
  \<^verbatim>\<open>App\<close> has no update pending and React runs the updater at once, inside
  \<^verbatim>\<open>setPlayers\<close>. The updater copies the array but changes the player object in place,
  and \<^verbatim>\<open>players[index]\<close> in \<^verbatim>\<open>checkForLevelUp\<close> is that object: the read sees the
  new count.
\<close>

definition addPoints :: "int \<Rightarrow> bool \<Rightarrow> player \<Rightarrow> player" where
  "addPoints points correct p =
     p\<lparr>score := score p + points,
       correctAnswers := (if correct then correctAnswers p + 1 else correctAnswers p)\<rparr>"

definition updatePlayerScore :: "int \<Rightarrow> bool \<Rightarrow> app \<Rightarrow> app" where
  "updatePlayerScore points correct st =
     (let i = currentPlayerIndex st;
          st1 = st\<lparr>players := (players st)[i := addPoints points correct (players st ! i)]\<rparr>
      in if correct then checkForLevelUp i st1 else st1)"

definition nextTurn :: "app \<Rightarrow> app" where
  "nextTurn st =
     st\<lparr>currentPlayerIndex := (if currentPlayerIndex st = 0 then 1 else 0),
        roundsPlayed := roundsPlayed st + 1,
        gameState := (if roundsPlayed st + 1 \<ge> totalRounds (gameSettings st)
                      then Results else gameState st)\<rparr>"

text \<open>The \<^verbatim>\<open>onComplete\<close> handler that \<^verbatim>\<open>App\<close> passes down.\<close>

definition onComplete :: "int \<Rightarrow> bool \<Rightarrow> app \<Rightarrow> app" where
  "onComplete points correct st = nextTurn (updatePlayerScore points correct st)"

text \<open>
  \<^verbatim>\<open>selectGameForPlayer(player)\<close> only compares its value of \<^verbatim>\<open>Math.random()\<close> with
  \<^verbatim>\<open>0.5\<close>; the value is given as the real number the double stands for.
\<close>

definition selectGameForPlayer :: "player \<Rightarrow> real \<Rightarrow> GameState" where
  "selectGameForPlayer p random =
     (if age p < 6
      then (if random > 1 / 2 then Opposites else Animals)
      else (if random > 1 / 2 then Multiplication else Wordmath))"

text \<open>
  \<^verbatim>\<open>startGame(customPlayers, settings)\<close>. Reading \<^verbatim>\<open>customPlayers[0].age\<close> or
  \<^verbatim>\<open>customPlayers[1].age\<close> of a shorter array throws, and so does
  \<^verbatim>\<open>selectGameForPlayer\<close> for a player that is not there; the \<^verbatim>\<open>catch\<close> sets the error
  message, and the setters called before the throw stay in effect. The player handed to
  \<^verbatim>\<open>selectGameForPlayer\<close> is indexed with \<^verbatim>\<open>currentPlayerIndex\<close> as it was before
  the call.
\<close>

definition startGame :: "player list \<Rightarrow> GameSettings \<Rightarrow> real \<Rightarrow> app \<Rightarrow> app" where
  "startGame customPlayers settings random st =
     (let st1 = st\<lparr>players := customPlayers, gameSettings := settings\<rparr>;
          failed = Some ''Failed to start game. Please try again.''
      in if length customPlayers < 2 then st1\<lparr>error := failed\<rparr>
         else
           (let st2 = st1\<lparr>currentPlayerIndex :=
                           (if age (customPlayers ! 0) \<le> age (customPlayers ! 1) then 0 else 1)\<rparr>
            in if \<not> currentPlayerIndex st < length customPlayers then st2\<lparr>error := failed\<rparr>
               else st2\<lparr>gameState := selectGameForPlayer (customPlayers ! currentPlayerIndex st) random,
                        roundsPlayed := 0,
                        error := None\<rparr>))"

definition resetGame :: "app \<Rightarrow> app" where
  "resetGame st =
     st\<lparr>players := defaultPlayers, currentPlayerIndex := 0, gameState := Selection,
        roundsPlayed := 0, error := None\<rparr>"

text \<open>
  \<^verbatim>\<open>GamesContainer\<close> mounts a mini-game while \<^verbatim>\<open>gameState\<close> names one, with
  \<^verbatim>\<open>difficulty={player.level}\<close> for the player \<^verbatim>\<open>players[currentPlayerIndex]\<close>.
\<close>

definition inGame :: "app \<Rightarrow> bool" where
  "inGame st = (gameState st \<in> {Opposites, Multiplication, Animals, Wordmath})"

definition currentPlayer :: "app \<Rightarrow> player" where
  "currentPlayer st = players st ! currentPlayerIndex st"

definition difficultyPassed :: "app \<Rightarrow> int" where
  "difficultyPassed st = level (currentPlayer st)"

text \<open>The mini-games the source intends for a player: by the age bracket.\<close>

definition gamesFor :: "player \<Rightarrow> GameState set" where
  "gamesFor p = (if age p < 6 then {Opposites, Animals} else {Multiplication, Wordmath})"

text \<open>
  \<^verbatim>\<open>GameSelection\<close>, the form shown while \<^verbatim>\<open>gameState\<close> is \<^verbatim>\<open>selection\<close>, is not among
  the sources studied here. What it hands to \<^verbatim>\<open>startGame\<close> is a parameter: any
  settings, and a roster of two players who begin at level 1 with no correct answer, as
  the players of the default roster of \<^verbatim>\<open>App\<close> and of \<^verbatim>\<open>resetGame\<close> do.
\<close>

definition newRoster :: "player list \<Rightarrow> bool" where
  "newRoster ps =
     (length ps = 2 \<and> level (ps ! 0) = 1 \<and> correctAnswers (ps ! 0) = 0
      \<and> level (ps ! 1) = 1 \<and> correctAnswers (ps ! 1) = 0)"

text \<open>
  A mounted mini-game calls \<^verbatim>\<open>onComplete\<close> at most once for each run of its
  \<^verbatim>\<open>initializeGame\<close>: once an option is selected the handler and the timeout effect
  return at their guards. A word-math session never calls it, because its question
  generator throws and no question is ever shown. After a completion \<^verbatim>\<open>gameState\<close>
  names the same game (or \<^verbatim>\<open>results\<close>), so the same component stays mounted with
  new props, and its lifecycle effect runs again only when \<^verbatim>\<open>initializeGame\<close> is a new
  function. In \<^verbatim>\<open>MultiplicationGame\<close> and \<^verbatim>\<open>WordMathGame\<close> its dependencies are
  \<^verbatim>\<open>[difficulty, timerDuration]\<close>; in \<^verbatim>\<open>OppositesGame\<close> and \<^verbatim>\<open>AnimalGame\<close> they are
  \<^verbatim>\<open>timerDuration\<close> and values that never change while the component is mounted. The
  timer duration is the same for the whole match.
\<close>

definition completes :: "GameState \<Rightarrow> bool" where
  "completes game = (game = Opposites \<or> game = Multiplication \<or> game = Animals)"

definition reinitialises :: "GameState \<Rightarrow> int \<Rightarrow> int \<Rightarrow> bool" where
  "reinitialises game d d' = ((game = Multiplication \<or> game = Wordmath) \<and> d \<noteq> d')"

text \<open>
  The states of the running program, each with a flag that says whether the mounted
  mini-game can still call \<^verbatim>\<open>onComplete\<close>: the initial state; the state after
  \<^verbatim>\<open>resetGame\<close> (the button of the results screen and of the error boundary); a start
  from the selection screen; a round completion by a mini-game that can still
  complete; the expiry of the level-up notice.
\<close>

inductive reachable :: "app \<Rightarrow> bool \<Rightarrow> bool" where
  initial: "reachable initialApp False"
| reset: "reachable st live \<Longrightarrow> reachable (resetGame st) False"
| start: "reachable st live \<Longrightarrow> gameState st = Selection \<Longrightarrow> newRoster ps \<Longrightarrow>
          reachable (startGame ps settings random st) True"
| complete: "reachable st True \<Longrightarrow> completes (gameState st) \<Longrightarrow>
          reachable (onComplete points correct st)
            (reinitialises (gameState st) (difficultyPassed st)
               (difficultyPassed (onComplete points correct st)))"
| notice: "reachable st live \<Longrightarrow> reachable (hideLevelUp st) live"

text \<open>Two players with levels in the range of the data model, and one of them active.\<close>

definition wellFormed :: "app \<Rightarrow> bool" where
  "wellFormed st =
     (length (players st) = 2 \<and> currentPlayerIndex st < 2
      \<and> 1 \<le> level (players st ! 0) \<and> level (players st ! 0) \<le> 10
      \<and> 1 \<le> level (players st ! 1) \<and> level (players st ! 1) \<le> 10)"

text \<open>
  What holds in every state of the running program: both players are at level 1 with at
  most one correct answer, and with none while the mini-game can still complete.
\<close>

definition firstRound :: "app \<Rightarrow> bool \<Rightarrow> bool" where
  "firstRound st live =
     (length (players st) = 2 \<and> currentPlayerIndex st < 2
      \<and> level (players st ! 0) = 1 \<and> level (players st ! 1) = 1
      \<and> 0 \<le> correctAnswers (players st ! 0) \<and> correctAnswers (players st ! 0) \<le> 1
      \<and> 0 \<le> correctAnswers (players st ! 1) \<and> correctAnswers (players st ! 1) \<le> 1
      \<and> (if live then correctAnswers (players st ! 0) = 0 \<and> correctAnswers (players st ! 1) = 0
          else True))"

text \<open>
  A match of the two default players with the default settings, started with the
  opposites game.
\<close>

definition defaultMatch :: app where
  "defaultMatch =
     startGame defaultPlayers \<lparr>timerDuration = 20, totalRounds = 10, difficulty = 1\<rparr> (3 / 4) initialApp"

text \<open>
  An orchestrator state in which the second player, at level 2, is one correct answer
  short of the threshold of ten.
\<close>

definition beforeThreshold :: app where
  "beforeThreshold =
     \<lparr>gameState = Multiplication, currentPlayerIndex = 1,
      players =
        [\<lparr>name = ''Alex (Pre-K)'', age = 5, grade = ''Pre-K'', score = 9, level = 1, correctAnswers = 3\<rparr>,
         \<lparr>name = ''Player 2'', age = 7, grade = ''1st Grade'', score = 31, level = 2, correctAnswers = 9\<rparr>],
      roundsPlayed = 15,
      gameSettings = \<lparr>timerDuration = 20, totalRounds = 20, difficulty = 1\<rparr>,
      showLevelUp = None, error = None\<rparr>"

section \<open>Doubles\<close>

subsection \<open>Products of doubles\<close>

text \<open>
  A product is within a relative error of \<open>2 ^ - 53\<close> of the exact product, and
  \<^verbatim>\<open>Math.floor\<close> of a double is the floor of its value. With the factor \<^verbatim>\<open>0.5\<close> every
  product of the scoring expression is exact. With \<^verbatim>\<open>0.3\<close>, which as a double lies
  below three tenths, the computed product is within a tenth of \<open>3 * t * d / 10\<close>: the floor
  is the exact one when \<open>3 * t * d / 10\<close> is not an integer. The case of an integer is the
  subject of the next subsection.
\<close>

lemma valueOf_mult: "valueOf (fst x * fst y, snd x + snd y) = valueOf x * valueOf y"
  by (simp add: valueOf_def powr_add)

lemma valueOf_ofInt: "valueOf (ofInt n) = of_int n"
  by (simp add: valueOf_def ofInt_def)

lemma two_powr_int: "0 \<le> s \<Longrightarrow> (2::real) powr of_int s = 2 ^ nat s"
proof -
  assume "0 \<le> s"
  then have "(of_int s :: real) = real (nat s)" by simp
  then show ?thesis by (simp only: powr_realpow[of 2 "nat s"] zero_less_numeral)
qed

lemma two_powr_neg_int: "s < 0 \<Longrightarrow> (2::real) powr of_int s = 1 / 2 ^ nat (- s)"
proof -
  assume "s < 0"
  then have "(of_int s :: real) = - real (nat (- s))" by simp
  then show ?thesis by (simp only: powr_minus_divide powr_realpow[of 2 "nat (- s)"] zero_less_numeral)
qed

lemma ffloor_valueOf: "ffloor x = \<lfloor>valueOf x\<rfloor>"
proof (cases "0 \<le> snd x")
  case True
  then have "valueOf x = of_int (fst x * 2 ^ nat (snd x))"
    by (simp add: valueOf_def two_powr_int)
  then show ?thesis using True by (simp add: ffloor_def del: of_int_mult of_int_power)
next
  case False
  then have "valueOf x = of_int (fst x) / of_int (2 ^ nat (- snd x))"
    by (simp add: valueOf_def two_powr_neg_int)
  then show ?thesis using False by (simp add: ffloor_def floor_divide_of_int_eq del: of_int_power)
qed

lemma nearest_multiple:
  fixes a :: int
  assumes n: "1 \<le> n" and a: "0 \<le> a"
  defines "q \<equiv> a div 2 ^ n" and "r \<equiv> a mod 2 ^ n" and "h \<equiv> (2::int) ^ (n - 1)"
  defines "q' \<equiv> (if r > h \<or> (r = h \<and> odd q) then q + 1 else q)"
  shows "\<bar>q' * 2 ^ n - a\<bar> \<le> h"
proof -
  have p: "(2::int) ^ n = 2 * h" using n by (simp add: h_def power_eq_if)
  have a_eq: "a = q * 2 ^ n + r" using div_mult_mod_eq[of a "2 ^ n"] by (simp add: q_def r_def)
  have r: "0 \<le> r" "r < 2 * h" using p by (simp_all add: r_def flip: p)
  show ?thesis
  proof (cases "r > h \<or> (r = h \<and> odd q)")
    case True
    then have "q' * 2 ^ n - a = 2 * h - r" by (simp add: q'_def a_eq p algebra_simps)
    with True r show ?thesis by auto
  next
    case False
    then have "q' * 2 ^ n - a = - r" by (simp add: q'_def a_eq)
    with False r show ?thesis by auto
  qed
qed

lemma round53_error: "\<bar>valueOf (round53 x) - valueOf x\<bar> \<le> \<bar>valueOf x\<bar> / 2 ^ 53"
proof (cases "bitlen \<bar>fst x\<bar> - 53 \<le> 0")
  case True
  then have "round53 x = x" by (simp add: round53_def Let_def)
  then show ?thesis by simp
next
  case False
  define m where "m = fst x"
  define e where "e = snd x"
  define a where "a = \<bar>m\<bar>"
  define s where "s = bitlen a - 53"
  define n where "n = nat s"
  define h where "h = (2::int) ^ nat (s - 1)"
  define q' where "q' = (if a mod 2 ^ nat s > h \<or> (a mod 2 ^ nat s = h \<and> odd (a div 2 ^ nat s))
                         then a div 2 ^ nat s + 1 else a div 2 ^ nat s)"
  from False have s: "1 \<le> s" by (simp add: s_def a_def m_def)
  then have n: "1 \<le> n" "s = int n" by (simp_all add: n_def)
  have "bitlen a \<noteq> 0" using s by (simp add: s_def)
  then have apos: "0 < a" by (simp add: bitlen_eq_zero_iff)
  then have mne: "m \<noteq> 0" by (auto simp: a_def)
  have "nat (bitlen a - 1) = n + 52" using s by (simp add: n_def s_def)
  with bitlen_bounds[OF apos] have low: "2 ^ (n + 52) \<le> a" by simp
  have r: "round53 x = (sgn m * q', e + s)"
    using False unfolding round53_def Let_def q'_def h_def s_def a_def m_def e_def by simp
  have hn: "nat (s - 1) = nat s - 1" using s by (simp add: nat_diff_distrib)
  have n1: "1 \<le> nat s" using s by simp
  have "\<bar>q' * 2 ^ nat s - a\<bar> \<le> h"
    unfolding q'_def h_def hn using nearest_multiple[OF n1, of a] apos by simp
  then have near: "\<bar>q' * 2 ^ n - a\<bar> \<le> h" by (simp add: n_def)
  have pe: "(2::real) powr (of_int e + of_int s) = 2 ^ n * 2 powr of_int e"
    using n by (simp add: powr_add powr_realpow)
  have v1: "valueOf (round53 x) = of_int (sgn m) * of_int (q' * 2 ^ n) * 2 powr of_int e"
    by (simp add: r valueOf_def pe)
  have "m = sgn m * a" by (simp add: a_def mult_sgn_abs)
  then have v0: "valueOf x = of_int (sgn m) * of_int a * 2 powr of_int e"
    by (simp add: valueOf_def flip: m_def e_def of_int_mult)
  have "valueOf (round53 x) - valueOf x
        = of_int (sgn m) * of_int (q' * 2 ^ n - a) * 2 powr of_int e"
    unfolding v1 v0 by (simp add: algebra_simps)
  then have "\<bar>valueOf (round53 x) - valueOf x\<bar>
        = \<bar>of_int (sgn m) :: real\<bar> * \<bar>of_int (q' * 2 ^ n - a)\<bar> * 2 powr of_int e"
    by (simp add: abs_mult)
  also have "\<bar>of_int (sgn m) :: real\<bar> = 1" using mne by (simp add: sgn_if)
  also have "1 * \<bar>of_int (q' * 2 ^ n - a) :: real\<bar> * 2 powr of_int e \<le> of_int h * 2 powr of_int e"
  proof -
    have "\<bar>of_int (q' * 2 ^ n - a) :: real\<bar> = of_int \<bar>q' * 2 ^ n - a\<bar>" by simp
    also have "\<dots> \<le> of_int h" using near by (simp only: of_int_le_iff)
    finally show ?thesis by (simp add: mult_right_mono)
  qed
  finally have up: "\<bar>valueOf (round53 x) - valueOf x\<bar> \<le> of_int h * 2 powr of_int e" .
  obtain k where k: "n = Suc k" using n(1) by (cases n) auto
  have hk: "h = 2 ^ k" using k by (simp add: h_def hn flip: n_def)
  have "(of_int h :: real) * 2 ^ 53 = 2 ^ (n + 52)"
    by (simp add: hk k power_add)
  also have "\<dots> \<le> of_int a" using low by (metis of_int_le_iff of_int_numeral of_int_power)
  finally have "of_int h * 2 ^ 53 \<le> (of_int a :: real)" .
  then have "(of_int h :: real) \<le> of_int a / 2 ^ 53" by (simp add: pos_le_divide_eq)
  then have "(of_int h :: real) * 2 powr of_int e \<le> of_int a / 2 ^ 53 * 2 powr of_int e"
    by (simp add: mult_right_mono)
  also have "\<dots> = \<bar>valueOf x\<bar> / 2 ^ 53"
    using mne by (simp add: v0 abs_mult sgn_if a_def)
  finally show ?thesis using up by linarith
qed

lemma fmul_error:
  "\<bar>valueOf (fmul x y) - valueOf x * valueOf y\<bar> \<le> \<bar>valueOf x * valueOf y\<bar> / 2 ^ 53"
  using round53_error[of "(fst x * fst y, snd x + snd y)"]
  by (simp add: fmul_def valueOf_mult)


lemma round53_exact: "\<bar>fst x\<bar> < 2 ^ 53 \<Longrightarrow> round53 x = x"
proof -
  assume "\<bar>fst x\<bar> < 2 ^ 53"
  then have "bitlen \<bar>fst x\<bar> \<le> 53" by (simp add: bitlen_le_iff_power)
  then show ?thesis by (simp add: round53_def Let_def)
qed

lemma valueOf_neg_exponent: "valueOf (m, - int n) = of_int m / 2 ^ n"
  using two_powr_neg_int[of "- int n"] two_powr_int[of 0]
  by (cases "n = 0") (simp_all add: valueOf_def)

lemmas double_eval =
  fmul_def ofInt_def round53_def ffloor_def Let_def compute_bitlen

lemma pointsEarned_half:
  assumes "\<bar>d\<bar> < 2 ^ 53" "\<bar>t * d\<bar> < 2 ^ 53"
  shows "pointsEarned factor05 t d = max 1 (t * d div 2)"
proof -
  have "fmul (ofInt d) factor05 = (d, - 1)"
    using assms(1) by (simp add: fmul_def ofInt_def factor05_def round53_exact)
  moreover have "fmul (ofInt t) (d, - 1) = (t * d, - 1)"
    using assms(2) by (simp add: fmul_def ofInt_def round53_exact)
  ultimately show ?thesis by (simp add: pointsEarned_def ffloor_def)
qed

lemma valueOf_factor03: "valueOf factor03 = 5404319552844595 / 2 ^ 54"
proof -
  have "(2::real) powr of_int (- 54) = 1 / 2 ^ nat 54"
    using two_powr_neg_int[of "- 54"] by simp
  then show ?thesis by (simp add: valueOf_def factor03_def)
qed

lemma product03_close:
  assumes "0 \<le> t" "0 \<le> d"
  shows "\<bar>valueOf (fmul (ofInt t) (fmul (ofInt d) factor03)) - of_int (3 * t * d) / 10\<bar>
         \<le> of_int (t * d) / 2 ^ 53"
proof -
  define c :: real where "c = 5404319552844595 / 2 ^ 54"
  define u :: real where "u = 1 / 2 ^ 53"
  define y where "y = valueOf (fmul (ofInt d) factor03)"
  define X where "X = valueOf (fmul (ofInt t) (fmul (ofInt d) factor03))"
  define T :: real where "T = of_int t"
  define D :: real where "D = of_int d"
  have T: "0 \<le> T" and D: "0 \<le> D" using assms by (simp_all add: T_def D_def)
  have c: "0 \<le> c" by (simp add: c_def)
  have u: "0 \<le> u" by (simp add: u_def)
  have num: "c * (1 + u) * u + c * u + (3 / 10 - c) \<le> u"
    by (simp add: c_def u_def)
  have "\<bar>y - D * c\<bar> \<le> \<bar>D * c\<bar> * u"
    using fmul_error[of "ofInt d" factor03]
    by (simp add: y_def D_def c_def u_def valueOf_ofInt valueOf_factor03)
  then have y1: "\<bar>y - D * c\<bar> \<le> D * c * u" using D c by (simp add: abs_mult)
  moreover have "0 \<le> D * c" using D c by simp
  ultimately have "\<bar>y\<bar> \<le> D * c + D * c * u" by linarith
  then have y2: "\<bar>y\<bar> \<le> D * c * (1 + u)" by (simp add: algebra_simps)
  have "\<bar>X - T * y\<bar> \<le> \<bar>T * y\<bar> * u"
    using fmul_error[of "ofInt t" "fmul (ofInt d) factor03"]
    by (simp add: X_def y_def T_def u_def valueOf_ofInt)
  then have "\<bar>X - T * y\<bar> \<le> T * \<bar>y\<bar> * u" using T by (simp add: abs_mult)
  also have "\<dots> \<le> T * (D * c * (1 + u)) * u"
    using y2 T u by (intro mult_right_mono mult_left_mono) auto
  finally have x1: "\<bar>X - T * y\<bar> \<le> T * D * (c * (1 + u) * u)" by (simp add: algebra_simps)
  have "\<bar>T * y - T * (D * c)\<bar> = T * \<bar>y - D * c\<bar>"
    using T by (simp add: abs_mult flip: right_diff_distrib)
  also have "\<dots> \<le> T * (D * c * u)" using y1 T by (rule mult_left_mono)
  finally have x2: "\<bar>T * y - T * (D * c)\<bar> \<le> T * D * (c * u)" by (simp add: algebra_simps)
  have x3: "\<bar>T * (D * c) - T * D * (3 / 10)\<bar> = T * D * (3 / 10 - c)"
  proof -
    have "T * (D * c) - T * D * (3 / 10) = - (T * D * (3 / 10 - c))" by (simp add: algebra_simps)
    moreover have "0 \<le> T * D * (3 / 10 - c)" using T D by (simp add: c_def)
    ultimately show ?thesis by simp
  qed
  have "\<bar>X - T * D * (3 / 10)\<bar>
        \<le> \<bar>X - T * y\<bar> + \<bar>T * y - T * (D * c)\<bar> + \<bar>T * (D * c) - T * D * (3 / 10)\<bar>"
    by linarith
  also have "\<dots> \<le> T * D * (c * (1 + u) * u) + T * D * (c * u) + T * D * (3 / 10 - c)"
    using x1 x2 x3 by linarith
  also have "\<dots> = T * D * (c * (1 + u) * u + c * u + (3 / 10 - c))" by (simp add: algebra_simps)
  also have "\<dots> \<le> T * D * u" using num T D by (intro mult_left_mono) auto
  finally have "\<bar>X - T * D * (3 / 10)\<bar> \<le> T * D * u" .
  then show ?thesis by (simp add: X_def T_def D_def u_def algebra_simps)
qed

lemma floor_near_tenths:
  fixes X :: real and N :: int
  assumes close: "\<bar>X - of_int N / 10\<bar> < 1 / 10" and no: "\<not> 10 dvd N"
  shows "\<lfloor>X\<rfloor> = N div 10"
proof -
  define q where "q = N div 10"
  define m where "m = N mod 10"
  have N: "N = 10 * q + m" by (simp add: q_def m_def)
  have m: "0 \<le> m" "m < 10" by (simp_all add: m_def)
  have real: "(of_int N :: real) / 10 = of_int q + of_int m / 10" by (simp add: N)
  from close have near: "of_int N / 10 - 1 / 10 < X" "X < of_int N / 10 + 1 / 10" by linarith+
  from no have "m \<noteq> 0" by (simp add: m_def dvd_eq_mod_eq_0)
  with m have "1 \<le> m" "m \<le> 9" by simp_all
  then have "(1::real) \<le> of_int m" "(of_int m :: real) \<le> 9"
    by (metis of_int_1_le_iff, metis of_int_le_numeral_iff)
  with near real have "of_int q \<le> X" "X < of_int q + 1" by linarith+
  then show ?thesis by (simp add: floor_unique q_def)
qed

lemma pointsEarned_three_tenths:
  assumes "0 \<le> t" "0 \<le> d" "t * d < 2 ^ 49" and no: "\<not> 10 dvd t * d"
  shows "pointsEarned factor03 t d = max 1 (3 * t * d div 10)"
proof -
  define X where "X = valueOf (fmul (ofInt t) (fmul (ofInt d) factor03))"
  have p: "pointsEarned factor03 t d = max 1 \<lfloor>X\<rfloor>"
    by (simp add: pointsEarned_def ffloor_valueOf X_def)
  have "(of_int (t * d) :: real) < 2 ^ 49"
    using assms(3) by (metis of_int_less_numeral_power_cancel_iff)
  then have "(of_int (t * d) :: real) / 2 ^ 53 < 2 ^ 49 / 2 ^ 53"
    by (rule divide_strict_right_mono) simp
  also have "(2::real) ^ 49 / 2 ^ 53 = 1 / 16" by simp
  finally have "(of_int (t * d) :: real) / 2 ^ 53 < 1 / 10" by simp
  with product03_close[OF assms(1,2)] have close: "\<bar>X - of_int (3 * t * d) / 10\<bar> < 1 / 10"
    unfolding X_def by linarith
  have dvd: "10 dvd 3 * t * d \<longleftrightarrow> 10 dvd t * d"
  proof -
    have "10 dvd 3 * k \<longleftrightarrow> 10 dvd k" for k :: int by presburger
    from this[of "t * d"] show ?thesis by (simp add: mult.assoc)
  qed
  from no dvd have "\<not> 10 dvd 3 * t * d" by simp
  from floor_near_tenths[OF close this] p show ?thesis by simp
qed

lemmas points_eval =
  pointsEarned_def fmul_def ofInt_def factor03_def factor05_def round53_def ffloor_def Let_def
  compute_bitlen

subsection \<open>A product that should be an integer\<close>

text \<open>
  Let the exact product be \<open>N * 2 ^ n - D\<close> in units of \<open>2 ^ - n\<close>, with \<open>N\<close> an integer that is
  not a power of two and \<open>D\<close> small. Rounding to 53 bits gives \<open>N\<close>, unless \<open>D\<close> is more than
  half the distance to the double below \<open>N\<close>; then it gives that double, and the floor is
  \<open>N - 1\<close>. For each difficulty from 1 to 10 the double \<^verbatim>\<open>difficulty * 0.3\<close> is computed
  and \<open>D\<close> is compared with that distance.
\<close>

lemma bitlen_between:
  fixes a :: int
  assumes "2 ^ j \<le> a" "a < 2 ^ (j + 1)"
  shows "bitlen a = int j + 1"
proof -
  from assms have "0 \<le> a - 2 ^ j" "a - 2 ^ j < 2 ^ j" by simp_all
  from bitlen_twopow_add_eq[OF this] show ?thesis by simp
qed

lemma div_mod_from_sum:
  fixes a b q r :: int
  assumes "a = q * b + r" "0 \<le> r" "r < b"
  shows "a div b = q" "a mod b = r"
proof -
  from assms have e: "a = b * q + r" by (simp add: mult.commute)
  show "a div b = q" using e assms(2,3) by (rule int_div_pos_eq)
  show "a mod b = r" using e assms(2,3) by (rule int_mod_pos_eq)
qed

lemma round53_near_integer:
  fixes a N D :: int and n k :: nat
  assumes lo: "2 ^ k < N" and hi: "N < 2 ^ (k + 1)" and k: "k \<le> 51" and kn: "53 \<le> k + n"
    and a: "a = N * 2 ^ n - D"
    and D1: "- (2 ^ (k + n - 52)) < D" and D2: "D < 2 ^ (k + n - 52)"
  shows "ffloor (round53 (a, - int n)) = N - (if 2 ^ (k + n - 53) < D then 1 else 0)"
proof -
  define s where "s = k + n - 52"
  define P :: int where "P = 2 ^ (52 - k)"
  define h :: int where "h = 2 ^ (s - 1)"
  have s1: "1 \<le> s" using kn by (simp add: s_def)
  have n_eq: "n = s + (52 - k)" using k kn by (simp add: s_def)
  have kn_eq: "k + n = s + 52" using kn by (simp add: s_def)
  have P2: "2 \<le> P" "even P" "0 < P"
  proof -
    obtain i where "52 - k = Suc i" using k by (cases "52 - k") auto
    then show "2 \<le> P" "even P" "0 < P" by (simp_all add: P_def)
  qed
  have two_s: "(2::int) ^ s = 2 * h"
  proof -
    obtain i where "s = Suc i" using s1 by (cases s) auto
    then show ?thesis by (simp add: h_def)
  qed
  have hpos: "0 < h" by (simp add: h_def)
  have pn: "(2::int) ^ n = P * 2 ^ s" by (simp add: n_eq P_def power_add)
  have sn: "(2::int) ^ s \<le> 2 ^ n" using n_eq by (intro power_increasing) auto
  have Dn: "D < 2 ^ n" "- (2 ^ n) < D" using D1 D2 sn unfolding s_def by linarith+
  have N1: "2 ^ k + 1 \<le> N" using lo by simp
  have N2: "N \<le> 2 ^ (k + 1) - 1" using hi by simp
  have a_lo: "2 ^ (k + n) \<le> a"
  proof -
    have "(2 ^ k + 1) * 2 ^ n \<le> N * (2::int) ^ n" using N1 by (intro mult_right_mono) auto
    then have "2 ^ (k + n) + 2 ^ n \<le> N * (2::int) ^ n" by (simp add: power_add algebra_simps)
    with Dn show ?thesis unfolding a by linarith
  qed
  have a_hi: "a < 2 ^ (k + n + 1)"
  proof -
    have "N * (2::int) ^ n \<le> (2 ^ (k + 1) - 1) * 2 ^ n" using N2 by (intro mult_right_mono) auto
    then have "N * (2::int) ^ n \<le> 2 ^ (k + n + 1) - 2 ^ n" by (simp add: power_add algebra_simps)
    with Dn show ?thesis unfolding a by linarith
  qed
  have apos: "0 < a" using a_lo by (smt (verit) zero_less_power)
  have bl: "bitlen a = int (k + n) + 1" using a_lo a_hi by (rule bitlen_between)
  have bl': "bitlen a = int s + 53" using bl kn_eq by simp
  have nats: "nat (int s) = s" "nat (int s - 1) = s - 1" using s1 by simp_all
  define q where "q = a div 2 ^ s"
  define r where "r = a mod 2 ^ s"
  define q' where "q' = (if r > h \<or> (r = h \<and> odd q) then q + 1 else q)"
  have rnd: "round53 (a, - int n) = (q', - int n + int s)"
    using apos s1 by (simp add: round53_def Let_def bl' nats q'_def q_def r_def h_def)
  have e: "- int n + int s = - int (52 - k)" using n_eq by simp
  have "nat (52 - int k) = 52 - k" using k by simp
  then have fl: "ffloor (round53 (a, - int n)) = q' div P"
    using k unfolding rnd e by (simp add: ffloor_def P_def)
  have aNP: "a = N * P * 2 ^ s - D" by (simp add: a pn)
  show ?thesis
  proof (cases "0 < D")
    case True
    have e1: "a = (N * P - 1) * 2 ^ s + (2 ^ s - D)" by (simp add: aNP algebra_simps)
    have e2: "0 \<le> 2 ^ s - D" "2 ^ s - D < 2 ^ s" using True D2 by (simp_all add: s_def)
    have qr: "q = N * P - 1" "r = 2 ^ s - D"
      unfolding q_def r_def using div_mod_from_sum[OF e1 e2] by simp_all
    have oddq: "odd q" using P2(2) by (simp add: qr)
    show ?thesis
    proof (cases "h < D")
      case below: True
      then have "q' = N * P - 1" using qr two_s by (simp add: q'_def)
      moreover have "(N * P - 1) div P = N - 1"
      proof -
        have "N * P - 1 = (N - 1) * P + (P - 1)" by (simp add: algebra_simps)
        moreover have "0 \<le> P - 1" "P - 1 < P" using P2 by simp_all
        ultimately show ?thesis by (rule div_mod_from_sum(1))
      qed
      ultimately show ?thesis using fl below by (simp add: h_def s_def)
    next
      case notbelow: False
      then have "q' = N * P" using qr two_s oddq by (auto simp: q'_def)
      then show ?thesis using fl notbelow P2 by (simp add: h_def s_def)
    qed
  next
    case False
    have e1: "a = (N * P) * 2 ^ s + (- D)" by (simp add: aNP)
    have e2: "0 \<le> - D" "- D < 2 ^ s" using False D1 by (simp_all add: s_def)
    have qr: "q = N * P" "r = - D"
      unfolding q_def r_def using div_mod_from_sum[OF e1 e2] by simp_all
    have "q' = N * P \<or> q' = N * P + 1" by (auto simp: q'_def qr)
    moreover have "(N * P + 1) div P = N"
    proof -
      have "N * P + 1 = N * P + 1" by simp
      moreover have "(0::int) \<le> 1" "1 < P" using P2 by simp_all
      ultimately show ?thesis by (rule div_mod_from_sum(1))
    qed
    moreover have "\<not> h < D" using False hpos by simp
    ultimately show ?thesis using fl P2 by (auto simp: h_def s_def)
  qed
qed


lemma three_tenths_multiple:
  fixes t d m c N :: int and n k :: nat
  assumes F: "fmul (ofInt d) factor03 = (m, - int n)"
    and rel: "3 * d * 2 ^ n = 10 * m + c"
    and N: "10 * N = 3 * t * d"
    and lo: "2 ^ k < N" and hi: "N < 2 ^ (k + 1)" and k: "k \<le> 51" and kn: "53 \<le> k + n"
    and c1: "\<bar>c * t\<bar> < 10 * 2 ^ (k + n - 52)"
  shows "pointsEarned factor03 t d
         = max 1 (N - (if 10 * 2 ^ (k + n - 53) < c * t then 1 else 0))"
proof -
  define D where "D = N * 2 ^ n - t * m"
  have "10 * D = (10 * N) * 2 ^ n - t * (10 * m)" by (simp add: D_def algebra_simps)
  also have "\<dots> = t * (3 * d * 2 ^ n) - t * (10 * m)" unfolding N by (simp add: algebra_simps)
  also have "\<dots> = t * c" unfolding rel by (simp add: algebra_simps)
  finally have D10: "10 * D = c * t" by (simp add: mult.commute)
  from c1 D10 have D1: "- (2 ^ (k + n - 52)) < D" and D2: "D < 2 ^ (k + n - 52)" by linarith+
  have a: "t * m = N * 2 ^ n - D" by (simp add: D_def)
  have "ffloor (round53 (t * m, - int n)) = N - (if 2 ^ (k + n - 53) < D then 1 else 0)"
    using lo hi k kn a D1 D2 by (rule round53_near_integer)
  moreover have "(2 ^ (k + n - 53) < D) = (10 * 2 ^ (k + n - 53) < c * t)"
    using D10 by linarith
  moreover have "fmul (ofInt t) (m, - int n) = round53 (t * m, - int n)"
    by (simp add: fmul_def ofInt_def)
  then have "pointsEarned factor03 t d = max 1 (ffloor (round53 (t * m, - int n)))"
    unfolding pointsEarned_def F by simp
  ultimately show ?thesis by simp
qed

lemma not_three_dvd_power: "\<not> 3 dvd (2::int) ^ k"
proof -
  have "(2::int) ^ k mod 3 = 1 \<or> (2::int) ^ k mod 3 = 2"
  proof (induction k)
    case 0
    show ?case by simp
  next
    case (Suc k)
    have "(2::int) ^ Suc k mod 3 = 2 * (2 ^ k mod 3) mod 3" by (simp add: mod_mult_right_eq)
    with Suc show ?case by auto
  qed
  then show ?thesis by (auto simp: dvd_eq_mod_eq_0)
qed

lemma binade:
  fixes N :: int
  assumes dv: "10 dvd t * d" and pos: "0 < t * d" and small: "t * d < 2 ^ 49"
  defines "N \<equiv> 3 * t * d div 10"
  defines "k \<equiv> nat (bitlen N - 1)"
  shows "10 * N = 3 * t * d" "2 ^ k < N" "N < 2 ^ (k + 1)" "k \<le> 51" "3 \<le> N"
proof -
  from dv obtain j where j: "t * d = 10 * j" by (auto simp: dvd_def)
  then have Nj: "N = 3 * j" by (simp add: N_def mult.assoc)
  from j pos have jpos: "1 \<le> j" by simp
  show N10: "10 * N = 3 * t * d" using j Nj by (simp add: mult.assoc)
  show N3: "3 \<le> N" using Nj jpos by simp
  then have Npos: "0 < N" by simp
  from bitlen_bounds[OF Npos] have b: "2 ^ k \<le> N" "N < 2 ^ nat (bitlen N)" by (simp_all add: k_def)
  have "1 \<le> bitlen N" using Npos bitlen_eq_zero_iff[of N] bitlen_nonneg[of N] by linarith
  then have "nat (bitlen N) = k + 1" by (simp add: k_def)
  with b(2) show hi: "N < 2 ^ (k + 1)" by simp
  have "N \<noteq> 2 ^ k" using Nj not_three_dvd_power[of k] by (metis dvd_triv_left)
  with b(1) show lo: "2 ^ k < N" by simp
  have "N < 2 ^ 52" using N10 small by simp
  with lo have "(2::int) ^ k < 2 ^ 52" by linarith
  then have "k < 52" by (rule power_less_imp_less_exp[rotated]) simp
  then show "k \<le> 51" by simp
qed


lemma three_tenths_d3:
  assumes t: "0 < t" and dv: "10 dvd t * 3" and small: "t * 3 < 2 ^ 49"
  shows "pointsEarned factor03 t 3 = max 1 (3 * t * 3 div 10 - (if roundedBelow t 3 then 1 else 0))"
proof -
  define N where "N = 3 * t * 3 div 10"
  define k where "k = nat (bitlen N - 1)"
  have pos: "0 < t * 3" using t by simp
  note b = binade[OF dv pos small, folded N_def, folded k_def]
  have F: "fmul (ofInt 3) factor03 = (8106479329266892, - int 53)" by (simp add: points_eval)
  have rel: "3 * 3 * 2 ^ 53 = 10 * 8106479329266892 + (8::int)" by simp
  have kn: "53 \<le> k + 53" by simp
  have e: "k + 53 - 52 = k + 1" "k + 53 - 53 = k" by simp_all
  have c1: "\<bar>8 * t\<bar> < 10 * 2 ^ (k + 53 - 52)" using b(1,3) t unfolding e by simp
  from three_tenths_multiple[OF F rel b(1) b(2) b(3) b(4) kn c1]
  have "pointsEarned factor03 t 3 = max 1 (N - (if 10 * 2 ^ k < 8 * t then 1 else 0))"
    unfolding e .
  moreover have "(10 * 2 ^ k < 8 * t) = (9 * 2 ^ k < 8 * N)" using b(1) by linarith
  ultimately show ?thesis
    unfolding roundedBelow_def N_def[symmetric] k_def[symmetric] using dv by simp
qed


lemma three_tenths_d1:
  assumes t: "0 < t" and dv: "10 dvd t * 1" and small: "t * 1 < 2 ^ 49"
  shows "pointsEarned factor03 t 1 = max 1 (3 * t * 1 div 10 - (if roundedBelow t 1 then 1 else 0))"
proof -
  define N where "N = 3 * t * 1 div 10"
  define k where "k = nat (bitlen N - 1)"
  have pos: "0 < t * 1" using t by simp
  note b = binade[OF dv pos small, folded N_def, folded k_def]
  have F: "fmul (ofInt 1) factor03 = (5404319552844595, - int 54)" by (simp add: points_eval)
  have rel: "3 * 1 * 2 ^ 54 = 10 * 5404319552844595 + (2::int)" by simp
  have kn: "53 \<le> k + 54" by simp
  have e: "k + 54 - 52 = k + 2" "k + 54 - 53 = k + 1" by simp_all
  have c1: "\<bar>2 * t\<bar> < 10 * 2 ^ (k + 54 - 52)" using b(1,3) t unfolding e by simp
  from three_tenths_multiple[OF F rel b(1) b(2) b(3) b(4) kn c1]
  have "pointsEarned factor03 t 1 = max 1 (N - (if 10 * 2 ^ (k + 1) < 2 * t then 1 else 0))"
    unfolding e .
  moreover have "\<not> 10 * 2 ^ (k + 1) < 2 * t" using b(1,3) zero_less_power[of "2::int" k] by (simp; linarith)
  moreover have "\<not> roundedBelow t 1" by (simp add: roundedBelow_def)
  ultimately show ?thesis unfolding N_def[symmetric] by simp
qed

lemma three_tenths_d2:
  assumes t: "0 < t" and dv: "10 dvd t * 2" and small: "t * 2 < 2 ^ 49"
  shows "pointsEarned factor03 t 2 = max 1 (3 * t * 2 div 10 - (if roundedBelow t 2 then 1 else 0))"
proof -
  define N where "N = 3 * t * 2 div 10"
  define k where "k = nat (bitlen N - 1)"
  have pos: "0 < t * 2" using t by simp
  note b = binade[OF dv pos small, folded N_def, folded k_def]
  have F: "fmul (ofInt 2) factor03 = (5404319552844595, - int 53)" by (simp add: points_eval)
  have rel: "3 * 2 * 2 ^ 53 = 10 * 5404319552844595 + (2::int)" by simp
  have kn: "53 \<le> k + 53" by simp
  have e: "k + 53 - 52 = k + 1" "k + 53 - 53 = k + 0" by simp_all
  have c1: "\<bar>2 * t\<bar> < 10 * 2 ^ (k + 53 - 52)" using b(1,3) t unfolding e by simp
  from three_tenths_multiple[OF F rel b(1) b(2) b(3) b(4) kn c1]
  have "pointsEarned factor03 t 2 = max 1 (N - (if 10 * 2 ^ (k + 0) < 2 * t then 1 else 0))"
    unfolding e .
  moreover have "\<not> 10 * 2 ^ (k + 0) < 2 * t" using b(1,3) zero_less_power[of "2::int" k] by (simp; linarith)
  moreover have "\<not> roundedBelow t 2" by (simp add: roundedBelow_def)
  ultimately show ?thesis unfolding N_def[symmetric] by simp
qed

lemma three_tenths_d4:
  assumes t: "0 < t" and dv: "10 dvd t * 4" and small: "t * 4 < 2 ^ 49"
  shows "pointsEarned factor03 t 4 = max 1 (3 * t * 4 div 10 - (if roundedBelow t 4 then 1 else 0))"
proof -
  define N where "N = 3 * t * 4 div 10"
  define k where "k = nat (bitlen N - 1)"
  have pos: "0 < t * 4" using t by simp
  note b = binade[OF dv pos small, folded N_def, folded k_def]
  have F: "fmul (ofInt 4) factor03 = (5404319552844595, - int 52)" by (simp add: points_eval)
  have rel: "3 * 4 * 2 ^ 52 = 10 * 5404319552844595 + (2::int)" by simp
  have "k \<noteq> 0" using b(3,5) by (intro notI) simp
  then obtain j where j: "k = Suc j" by (cases k) auto
  have kn: "53 \<le> k + 52" using j by simp
  have e: "k + 52 - 52 = k" "k + 52 - 53 = j" using j by simp_all
  have K: "(2::int) ^ k = 2 * 2 ^ j" using j by simp
  have c1: "\<bar>2 * t\<bar> < 10 * 2 ^ (k + 52 - 52)" using b(1,3) t unfolding e by simp
  from three_tenths_multiple[OF F rel b(1) b(2) b(3) b(4) kn c1]
  have "pointsEarned factor03 t 4 = max 1 (N - (if 10 * 2 ^ j < 2 * t then 1 else 0))"
    unfolding e .
  moreover have "\<not> 10 * 2 ^ j < 2 * t" using b(1,3) K t by simp
  moreover have "\<not> roundedBelow t 4" by (simp add: roundedBelow_def)
  ultimately show ?thesis unfolding N_def[symmetric] by simp
qed

lemma three_tenths_d5:
  assumes t: "0 < t" and dv: "10 dvd t * 5" and small: "t * 5 < 2 ^ 49"
  shows "pointsEarned factor03 t 5 = max 1 (3 * t * 5 div 10 - (if roundedBelow t 5 then 1 else 0))"
proof -
  define N where "N = 3 * t * 5 div 10"
  define k where "k = nat (bitlen N - 1)"
  have pos: "0 < t * 5" using t by simp
  note b = binade[OF dv pos small, folded N_def, folded k_def]
  have F: "fmul (ofInt 5) factor03 = (6755399441055744, - int 52)" by (simp add: points_eval)
  have rel: "3 * 5 * 2 ^ 52 = 10 * 6755399441055744 + (0::int)" by simp
  have "k \<noteq> 0" using b(3,5) by (intro notI) simp
  then obtain j where j: "k = Suc j" by (cases k) auto
  have kn: "53 \<le> k + 52" using j by simp
  have e: "k + 52 - 52 = k" "k + 52 - 53 = j" using j by simp_all
  have K: "(2::int) ^ k = 2 * 2 ^ j" using j by simp
  have c1: "\<bar>0 * t\<bar> < 10 * 2 ^ (k + 52 - 52)" using b(1,3) t unfolding e by simp
  from three_tenths_multiple[OF F rel b(1) b(2) b(3) b(4) kn c1]
  have "pointsEarned factor03 t 5 = max 1 (N - (if 10 * 2 ^ j < 0 * t then 1 else 0))"
    unfolding e .
  moreover have "\<not> 10 * 2 ^ j < 0 * t" using b(1,3) K t by simp
  moreover have "\<not> roundedBelow t 5" by (simp add: roundedBelow_def)
  ultimately show ?thesis unfolding N_def[symmetric] by simp
qed

lemma three_tenths_d6:
  assumes t: "0 < t" and dv: "10 dvd t * 6" and small: "t * 6 < 2 ^ 49"
  shows "pointsEarned factor03 t 6 = max 1 (3 * t * 6 div 10 - (if roundedBelow t 6 then 1 else 0))"
proof -
  define N where "N = 3 * t * 6 div 10"
  define k where "k = nat (bitlen N - 1)"
  have pos: "0 < t * 6" using t by simp
  note b = binade[OF dv pos small, folded N_def, folded k_def]
  have F: "fmul (ofInt 6) factor03 = (8106479329266892, - int 52)" by (simp add: points_eval)
  have rel: "3 * 6 * 2 ^ 52 = 10 * 8106479329266892 + (8::int)" by simp
  have "k \<noteq> 0" using b(3,5) by (intro notI) simp
  then obtain j where j: "k = Suc j" by (cases k) auto
  have kn: "53 \<le> k + 52" using j by simp
  have e: "k + 52 - 52 = k" "k + 52 - 53 = j" using j by simp_all
  have K: "(2::int) ^ k = 2 * 2 ^ j" using j by simp
  have c1: "\<bar>8 * t\<bar> < 10 * 2 ^ (k + 52 - 52)" using b(1,3) t unfolding e by simp
  from three_tenths_multiple[OF F rel b(1) b(2) b(3) b(4) kn c1]
  have "pointsEarned factor03 t 6 = max 1 (N - (if 10 * 2 ^ j < 8 * t then 1 else 0))"
    unfolding e .
  moreover have "(10 * 2 ^ j < 8 * t) = (9 * 2 ^ k < 8 * N)" using b(1) K by linarith
  ultimately show ?thesis
    unfolding roundedBelow_def N_def[symmetric] k_def[symmetric] using dv by simp
qed

lemma three_tenths_d7:
  assumes t: "0 < t" and dv: "10 dvd t * 7" and small: "t * 7 < 2 ^ 49"
  shows "pointsEarned factor03 t 7 = max 1 (3 * t * 7 div 10 - (if roundedBelow t 7 then 1 else 0))"
proof -
  define N where "N = 3 * t * 7 div 10"
  define k where "k = nat (bitlen N - 1)"
  have pos: "0 < t * 7" using t by simp
  note b = binade[OF dv pos small, folded N_def, folded k_def]
  have F: "fmul (ofInt 7) factor03 = (4728779608739021, - int 51)" by (simp add: points_eval)
  have rel: "3 * 7 * 2 ^ 51 = 10 * 4728779608739021 + (- 2::int)" by simp
  have N4: "4 \<le> N" using b(1) t by presburger
  have "k \<noteq> 0" "k \<noteq> 1" using b(3) N4 by (intro notI, simp)+
  then obtain j where j: "k = Suc (Suc j)" by (cases k; cases "k - 1") auto
  have kn: "53 \<le> k + 51" using j by simp
  have e: "k + 51 - 52 = j + 1" "k + 51 - 53 = j" using j by simp_all
  have K: "(2::int) ^ k = 4 * 2 ^ j" using j by simp
  have c1: "\<bar>- 2 * t\<bar> < 10 * 2 ^ (k + 51 - 52)" using b(1,3) K t unfolding e by simp
  from three_tenths_multiple[OF F rel b(1) b(2) b(3) b(4) kn c1]
  have "pointsEarned factor03 t 7 = max 1 (N - (if 10 * 2 ^ j < - 2 * t then 1 else 0))"
    unfolding e .
  moreover have "\<not> 10 * 2 ^ j < - 2 * t" using b(1,3) K t by simp
  moreover have "\<not> roundedBelow t 7" by (simp add: roundedBelow_def)
  ultimately show ?thesis unfolding N_def[symmetric] by simp
qed

lemma three_tenths_d8:
  assumes t: "0 < t" and dv: "10 dvd t * 8" and small: "t * 8 < 2 ^ 49"
  shows "pointsEarned factor03 t 8 = max 1 (3 * t * 8 div 10 - (if roundedBelow t 8 then 1 else 0))"
proof -
  define N where "N = 3 * t * 8 div 10"
  define k where "k = nat (bitlen N - 1)"
  have pos: "0 < t * 8" using t by simp
  note b = binade[OF dv pos small, folded N_def, folded k_def]
  have F: "fmul (ofInt 8) factor03 = (5404319552844595, - int 51)" by (simp add: points_eval)
  have rel: "3 * 8 * 2 ^ 51 = 10 * 5404319552844595 + (2::int)" by simp
  have N4: "4 \<le> N" using b(1) t by presburger
  have "k \<noteq> 0" "k \<noteq> 1" using b(3) N4 by (intro notI, simp)+
  then obtain j where j: "k = Suc (Suc j)" by (cases k; cases "k - 1") auto
  have kn: "53 \<le> k + 51" using j by simp
  have e: "k + 51 - 52 = j + 1" "k + 51 - 53 = j" using j by simp_all
  have K: "(2::int) ^ k = 4 * 2 ^ j" using j by simp
  have c1: "\<bar>2 * t\<bar> < 10 * 2 ^ (k + 51 - 52)" using b(1,3) K t unfolding e by simp
  from three_tenths_multiple[OF F rel b(1) b(2) b(3) b(4) kn c1]
  have "pointsEarned factor03 t 8 = max 1 (N - (if 10 * 2 ^ j < 2 * t then 1 else 0))"
    unfolding e .
  moreover have "\<not> 10 * 2 ^ j < 2 * t" using b(1,3) K t by simp
  moreover have "\<not> roundedBelow t 8" by (simp add: roundedBelow_def)
  ultimately show ?thesis unfolding N_def[symmetric] by simp
qed

lemma three_tenths_d9:
  assumes t: "0 < t" and dv: "10 dvd t * 9" and small: "t * 9 < 2 ^ 49"
  shows "pointsEarned factor03 t 9 = max 1 (3 * t * 9 div 10 - (if roundedBelow t 9 then 1 else 0))"
proof -
  define N where "N = 3 * t * 9 div 10"
  define k where "k = nat (bitlen N - 1)"
  have pos: "0 < t * 9" using t by simp
  note b = binade[OF dv pos small, folded N_def, folded k_def]
  have F: "fmul (ofInt 9) factor03 = (6079859496950169, - int 51)" by (simp add: points_eval)
  have rel: "3 * 9 * 2 ^ 51 = 10 * 6079859496950169 + (6::int)" by simp
  have N4: "4 \<le> N" using b(1) t by presburger
  have "k \<noteq> 0" "k \<noteq> 1" using b(3) N4 by (intro notI, simp)+
  then obtain j where j: "k = Suc (Suc j)" by (cases k; cases "k - 1") auto
  have kn: "53 \<le> k + 51" using j by simp
  have e: "k + 51 - 52 = j + 1" "k + 51 - 53 = j" using j by simp_all
  have K: "(2::int) ^ k = 4 * 2 ^ j" using j by simp
  have c1: "\<bar>6 * t\<bar> < 10 * 2 ^ (k + 51 - 52)" using b(1,3) K t unfolding e by simp
  from three_tenths_multiple[OF F rel b(1) b(2) b(3) b(4) kn c1]
  have "pointsEarned factor03 t 9 = max 1 (N - (if 10 * 2 ^ j < 6 * t then 1 else 0))"
    unfolding e .
  moreover have "(10 * 2 ^ j < 6 * t) = (9 * 2 ^ k < 8 * N)" using b(1) K by linarith
  ultimately show ?thesis
    unfolding roundedBelow_def N_def[symmetric] k_def[symmetric] using dv by simp
qed

lemma three_tenths_d10:
  assumes t: "0 < t" and dv: "10 dvd t * 10" and small: "t * 10 < 2 ^ 49" and t2: "2 \<le> t"
  shows "pointsEarned factor03 t 10 = max 1 (3 * t * 10 div 10 - (if roundedBelow t 10 then 1 else 0))"
proof -
  define N where "N = 3 * t * 10 div 10"
  define k where "k = nat (bitlen N - 1)"
  have pos: "0 < t * 10" using t by simp
  note b = binade[OF dv pos small, folded N_def, folded k_def]
  have F: "fmul (ofInt 10) factor03 = (6755399441055744, - int 51)" by (simp add: points_eval)
  have rel: "3 * 10 * 2 ^ 51 = 10 * 6755399441055744 + (0::int)" by simp
  have N4: "4 \<le> N" using b(1) t2 by presburger
  have "k \<noteq> 0" "k \<noteq> 1" using b(3) N4 by (intro notI, simp)+
  then obtain j where j: "k = Suc (Suc j)" by (cases k; cases "k - 1") auto
  have kn: "53 \<le> k + 51" using j by simp
  have e: "k + 51 - 52 = j + 1" "k + 51 - 53 = j" using j by simp_all
  have K: "(2::int) ^ k = 4 * 2 ^ j" using j by simp
  have c1: "\<bar>0 * t\<bar> < 10 * 2 ^ (k + 51 - 52)" using b(1,3) K t unfolding e by simp
  from three_tenths_multiple[OF F rel b(1) b(2) b(3) b(4) kn c1]
  have "pointsEarned factor03 t 10 = max 1 (N - (if 10 * 2 ^ j < 0 * t then 1 else 0))"
    unfolding e .
  moreover have "\<not> 10 * 2 ^ j < 0 * t" using b(1,3) K t by simp
  moreover have "\<not> roundedBelow t 10" by (simp add: roundedBelow_def)
  ultimately show ?thesis unfolding N_def[symmetric] by simp
qed


lemma pointsEarned_zero_time: "pointsEarned k 0 d = 1"
  by (simp add: pointsEarned_def fmul_def ofInt_def round53_def ffloor_def Let_def bitlen_eq_zero_iff)

lemma pointsEarned_three_tenths_exact:
  assumes t: "0 \<le> t" and d: "1 \<le> d" "d \<le> 10" and small: "t * d < 2 ^ 49"
  shows "pointsEarned factor03 t d
         = max 1 (3 * t * d div 10 - (if roundedBelow t d then 1 else 0))"
proof (cases "t = 0")
  case True
  then show ?thesis by (simp add: pointsEarned_zero_time roundedBelow_def)
next
  case False
  with t have tpos: "0 < t" by simp
  show ?thesis
  proof (cases "10 dvd t * d")
    case no: False
    from d have "0 \<le> d" by simp
    from pointsEarned_three_tenths[OF t this small no] no
    show ?thesis by (simp add: roundedBelow_def)
  next
    case yes: True
    from d have "d = 1 \<or> d = 2 \<or> d = 3 \<or> d = 4 \<or> d = 5 \<or> d = 6 \<or> d = 7
      \<or> d = 8 \<or> d = 9 \<or> d = 10" by presburger
    then consider "d = 1" | "d = 2" | "d = 3" | "d = 4" | "d = 5" | "d = 6" | "d = 7"
      | "d = 8" | "d = 9" | "d = 10" by blast
    then show ?thesis
    proof cases
      case 1 with three_tenths_d1[OF tpos] yes small show ?thesis by simp
    next
      case 2 with three_tenths_d2[OF tpos] yes small show ?thesis by simp
    next
      case 3 with three_tenths_d3[OF tpos] yes small show ?thesis by simp
    next
      case 4 with three_tenths_d4[OF tpos] yes small show ?thesis by simp
    next
      case 5 with three_tenths_d5[OF tpos] yes small show ?thesis by simp
    next
      case 6 with three_tenths_d6[OF tpos] yes small show ?thesis by simp
    next
      case 7 with three_tenths_d7[OF tpos] yes small show ?thesis by simp
    next
      case 8 with three_tenths_d8[OF tpos] yes small show ?thesis by simp
    next
      case 9 with three_tenths_d9[OF tpos] yes small show ?thesis by simp
    next
      case 10
      show ?thesis
      proof (cases "t = 1")
        case True
        have "pointsEarned factor03 1 10 = 3" by (simp add: points_eval)
        with True 10 show ?thesis by (simp add: roundedBelow_def)
      next
        case False
        with tpos have "2 \<le> t" by simp
        with 10 three_tenths_d10[OF tpos] yes small show ?thesis by simp
      qed
    qed
  qed
qed


section \<open>The option generator\<close>

subsection \<open>What a returned array holds\<close>

text \<open>
  Along the loop the array stays duplicate-free and positive and keeps the correct
  answer; the loop is left only with four elements.
\<close>

lemma collect_invariant:
  assumes ret: "collect c d rnd k opts = Some r"
  shows "distinct opts \<and> c \<in> set opts \<and> (\<forall>x\<in>set opts. 0 < x) \<and> length opts \<le> 4 \<longrightarrow>
   length r = 4 \<and> distinct r \<and> c \<in> set r \<and> (\<forall>x\<in>set r. 0 < x)"
proof (rule collect.raw_induct[where P = "\<lambda>c d rnd k opts r.
    distinct opts \<and> c \<in> set opts \<and> (\<forall>x\<in>set opts. 0 < x) \<and> length opts \<le> 4 \<longrightarrow>
    length r = 4 \<and> distinct r \<and> c \<in> set r \<and> (\<forall>x\<in>set r. 0 < x)", OF _ ret], goal_cases)
  case (1 collect' c d rnd k opts r)
  show ?case
  proof (cases "length opts < 4")
    case False
    with 1(2) show ?thesis by auto
  next
    case True
    let ?w = "wrongAnswer c d (rnd k)"
    show ?thesis
    proof (cases "0 < ?w \<and> ?w \<notin> set opts")
      case acc: True
      with True 1(2) have "collect' c d rnd (Suc k) (opts @ [?w]) = Some r"
        by (simp add: Let_def)
      from 1(1)[OF this] True acc show ?thesis by auto
    next
      case rej: False
      with True 1(2) have "collect' c d rnd (Suc k) opts = Some r"
        by (auto simp add: Let_def)
      from 1(1)[OF this] show ?thesis by auto
    qed
  qed
qed

lemma distinct_count_list_one: "distinct xs \<Longrightarrow> x \<in> set xs \<Longrightarrow> count_list xs x = 1"
  by (induction xs) auto

text \<open>
  C1. For every positive correct answer and every difficulty (in particular every
  difficulty from 1 to 5), whenever \<^verbatim>\<open>generateOptions\<close> returns, the result has exactly
  four elements, they are pairwise different and positive, the correct answer occurs
  exactly once, and the other three elements are the decoys. The statement holds for
  the generator of \<^verbatim>\<open>MultiplicationGame\<close> and for the textually equal one of
  \<^verbatim>\<open>WordMathGame\<close>.
\<close>

theorem generateOptions_result:
  assumes pos: "0 < correctAnswer"
    and ret: "generateOptions_returns correctAnswer d rnd r"
  shows "length r = 4 \<and> distinct r \<and> (\<forall>x\<in>set r. 0 < x) \<and> count_list r correctAnswer = 1
         \<and> length (filter (\<lambda>x. x \<noteq> correctAnswer) r) = 3"
proof -
  from ret obtain opts where c: "collect correctAnswer d rnd 0 [correctAnswer] = Some opts"
    and m: "mset r = mset opts"
    by (auto simp: generateOptions_returns_def split: option.splits)
  from collect_invariant[OF c] pos
  have o: "length opts = 4" "distinct opts" "correctAnswer \<in> set opts" "\<forall>x\<in>set opts. 0 < x"
    by auto
  from m o have r: "length r = 4" "distinct r" "correctAnswer \<in> set r" "\<forall>x\<in>set r. 0 < x"
    by (metis size_mset, metis mset_eq_imp_distinct_iff, metis set_mset_mset, metis set_mset_mset)
  have cnt: "count_list r correctAnswer = 1"
    using r by (simp add: distinct_count_list_one)
  have "length (filter (\<lambda>x. x \<noteq> correctAnswer) r) + count_list r correctAnswer = length r"
    by (induction r) auto
  with cnt r(1) have "length (filter (\<lambda>x. x \<noteq> correctAnswer) r) = 3" by simp
  with r cnt show ?thesis by simp
qed

theorem generateOptions_result_witness:
  "generateOptions_returns 12 1 (\<lambda>k. ((int k, - 3), (3, - 2))) [14, 12, 15, 13]
   \<and> length [14, 12, 15, 13 :: int] = 4 \<and> distinct [14, 12, 15, 13 :: int]
   \<and> count_list [14, 12, 15, 13 :: int] 12 = 1"
proof -
  have s: "signOf (3, - 2) = 1" using valueOf_neg_exponent[of 3 2] by (simp add: signOf_def)
  have ret: "generateOptions_returns 12 1 (\<lambda>k. ((int k, - 3), (3, - 2))) [14, 12, 15, 13]"
    by (simp add: generateOptions_returns_def collect.simps wrongAnswer_def offsetOf_def s
        double_eval)
  have pos: "(0::int) < 12" by simp
  from generateOptions_result[OF pos ret] ret show ?thesis by simp
qed

subsection \<open>The range of the offsets\<close>

text \<open>
  For a value of \<^verbatim>\<open>Math.random()\<close> the offset lies between 1 and \<open>7 - min(difficulty, 5)\<close>,
  so a proposed value differs from the correct answer by at least 1 and at most 6.
\<close>

lemma isRandom_bounds:
  assumes "isRandom r"
  shows "0 \<le> valueOf r" "valueOf r \<le> 1 - 1 / 2 ^ 53"
proof -
  obtain m e where r: "r = (m, e)" by (cases r)
  from assms r have m: "0 \<le> m" "m < 2 ^ 53" and v: "valueOf (m, e) < 1"
    by (simp_all add: isRandom_def)
  show "0 \<le> valueOf r" using m by (simp add: r valueOf_def)
  show "valueOf r \<le> 1 - 1 / 2 ^ 53"
  proof (cases "0 \<le> e")
    case True
    then have "valueOf (m, e) = of_int (m * 2 ^ nat e)" by (simp add: valueOf_def two_powr_int)
    with v have "m * 2 ^ nat e < 1" by (simp only: of_int_less_1_iff)
    moreover have "m \<le> m * 2 ^ nat e" using m by (simp add: mult_le_cancel_left1)
    ultimately have "m = 0" using m by simp
    then show ?thesis by (simp add: r valueOf_def)
  next
    case False
    define n where "n = nat (- e)"
    have e: "e = - int n" using False by (simp add: n_def)
    have val: "valueOf (m, e) = of_int m / 2 ^ n" unfolding e by (rule valueOf_neg_exponent)
    show ?thesis
    proof (cases "53 \<le> n")
      case True
      have "(2::real) ^ 53 \<le> 2 ^ n" using True by (intro power_increasing) auto
      then have "of_int m / (2::real) ^ n \<le> of_int m / 2 ^ 53"
        using m by (intro divide_left_mono) simp_all
      also have "\<dots> \<le> (2 ^ 53 - 1) / 2 ^ 53"
      proof -
        from m have "m \<le> 2 ^ 53 - 1" by simp
        then have "(of_int m :: real) \<le> of_int (2 ^ 53 - 1)" by (simp only: of_int_le_iff)
        then show ?thesis by (simp add: divide_right_mono)
      qed
      finally show ?thesis by (simp add: r val)
    next
      case small: False
      from v val have "of_int m < (2::real) ^ n" by (simp add: pos_divide_less_eq)
      then have "m < 2 ^ n" by (metis of_int_less_numeral_power_cancel_iff)
      then have "m \<le> 2 ^ n - 1" by simp
      then have "(of_int m :: real) \<le> of_int (2 ^ n - 1)" by (simp only: of_int_le_iff)
      then have "of_int m / (2::real) ^ n \<le> (2 ^ n - 1) / 2 ^ n" by (simp add: divide_right_mono)
      also have "\<dots> = 1 - 1 / 2 ^ n" by (simp add: diff_divide_distrib)
      also have "\<dots> \<le> 1 - 1 / 2 ^ 53"
      proof -
        from small have "(2::real) ^ n \<le> 2 ^ 53" by (intro power_increasing) auto
        then have "1 / (2::real) ^ 53 \<le> 1 / 2 ^ n" by (intro divide_left_mono) simp_all
        then show ?thesis by simp
      qed
      finally show ?thesis by (simp add: r val)
    qed
  qed
qed

lemma random_times_range:
  assumes r: "isRandom r" and n: "0 < n"
  shows "0 \<le> ffloor (fmul r (ofInt n))" "ffloor (fmul r (ofInt n)) < n"
proof -
  define x where "x = valueOf r * of_int n"
  define y where "y = valueOf (fmul r (ofInt n))"
  note b = isRandom_bounds[OF r]
  have x0: "0 \<le> x" using b(1) n by (simp add: x_def)
  have "x \<le> (1 - 1 / 2 ^ 53) * of_int n"
    unfolding x_def using b(2) n by (intro mult_right_mono) auto
  then have x1: "x \<le> of_int n - of_int n / 2 ^ 53" by (simp add: algebra_simps)
  have "\<bar>y - x\<bar> \<le> \<bar>x\<bar> / 2 ^ 53"
    using fmul_error[of r "ofInt n"] by (simp add: x_def y_def valueOf_ofInt)
  with x0 have err: "\<bar>y - x\<bar> \<le> x / 2 ^ 53" by simp
  have "0 \<le> x - x / 2 ^ 53" using x0 by (simp add: field_simps)
  with err have y0: "0 \<le> y" by linarith
  have npos: "(0::real) < of_int n" using n by simp
  have "x / 2 ^ 53 \<le> (of_int n - of_int n / 2 ^ 53) / 2 ^ 53"
    using x1 by (intro divide_right_mono) auto
  also have "\<dots> < of_int n / 2 ^ 53" using npos by (simp add: field_simps)
  finally have "x / 2 ^ 53 < of_int n / 2 ^ 53" .
  with err x1 have y1: "y < of_int n" by linarith
  show "0 \<le> ffloor (fmul r (ofInt n))" using y0 by (simp add: ffloor_valueOf y_def)
  show "ffloor (fmul r (ofInt n)) < n" using y1 by (simp add: ffloor_valueOf y_def floor_less_iff)
qed

lemma offsetOf_range:
  assumes "isRandom r"
  shows "1 \<le> offsetOf d r \<and> offsetOf d r \<le> 7 - min d 5"
proof -
  have "0 < 7 - min d 5" by simp
  from random_times_range[OF assms this] show ?thesis by (simp add: offsetOf_def)
qed

text \<open>
  The products are rounded before \<^verbatim>\<open>Math.floor\<close> is taken: a draw just below \<open>5/6\<close>
  gives the offset 6 at difficulty 1, and a draw just below \<open>4/7\<close> gives the operand 5
  at difficulty 4, where the floors of the exact products would give 5 and 4.
\<close>

lemma rounded_products:
  "offsetOf 1 (3752999689475413, - 52) = 6"
  "\<lfloor>(3752999689475413 / 2 ^ 52 :: real) * 6\<rfloor> + 1 = 5"
  "num1 (generateProblem 4 ((2573485501354569, - 52), (0, 0))) = 5"
  "\<lfloor>(2573485501354569 / 2 ^ 52 :: real) * 7\<rfloor> + 1 = 4"
  by (simp_all add: offsetOf_def generateProblem_def double_eval)

text \<open>The operands of \<^verbatim>\<open>generateProblem\<close> lie between 1 and \<open>min(10, 3 + difficulty)\<close>.\<close>

lemma generateProblem_range:
  assumes "isRandom (fst rr)" "isRandom (snd rr)" "1 \<le> d"
  shows "1 \<le> num1 (generateProblem d rr) \<and> num1 (generateProblem d rr) \<le> min 10 (3 + d)
         \<and> 1 \<le> num2 (generateProblem d rr) \<and> num2 (generateProblem d rr) \<le> min 10 (3 + d)
         \<and> answer (generateProblem d rr) = num1 (generateProblem d rr) * num2 (generateProblem d rr)"
proof -
  have "0 < min 10 (3 + d)" using assms(3) by simp
  from random_times_range[OF assms(1) this] random_times_range[OF assms(2) this]
  show ?thesis by (simp add: generateProblem_def Let_def)
qed

subsection \<open>When the loop returns\<close>

lemma set_drawn:
  "set (drawn c d rnd n) = {w. \<exists>j<n. w = wrongAnswer c d (rnd j) \<and> 0 < w \<and> w \<noteq> c}"
  by (auto simp: drawn_def)

lemma length_drawn: "length (drawn c d rnd n) = card (set (drawn c d rnd n))"
  by (simp add: drawn_def length_remdups_card_conv)

lemma collect_stop: "\<not> length opts < 4 \<Longrightarrow> collect c d rnd k opts = Some opts"
  by (simp add: collect.simps)

lemma collect_accept:
  "length opts < 4 \<Longrightarrow> 0 < wrongAnswer c d (rnd k) \<Longrightarrow> wrongAnswer c d (rnd k) \<notin> set opts \<Longrightarrow>
   collect c d rnd k opts = collect c d rnd (Suc k) (opts @ [wrongAnswer c d (rnd k)])"
  by (subst collect.simps) simp

lemma collect_reject:
  "length opts < 4 \<Longrightarrow> \<not> (0 < wrongAnswer c d (rnd k) \<and> wrongAnswer c d (rnd k) \<notin> set opts) \<Longrightarrow>
   collect c d rnd k opts = collect c d rnd (Suc k) opts"
  by (subst collect.simps) (auto simp add: Let_def)

lemma card_le_Suc_Diff1: "finite A \<Longrightarrow> card A \<le> Suc (card (A - {x}))"
  by (cases "x \<in> A") (simp_all add: card_Suc_Diff1)

lemma finite_pending: "finite (pending c d rnd k n)"
proof -
  have "pending c d rnd k n \<subseteq> (\<lambda>j. wrongAnswer c d (rnd j)) ` {k..<k + n}"
    by (auto simp: pending_def)
  then show ?thesis by (rule finite_subset) simp
qed

lemma collect_returns_aux:
  "4 \<le> length opts + card (pending c d rnd k n - set opts) \<Longrightarrow> \<exists>r. collect c d rnd k opts = Some r"
proof (induction n arbitrary: k opts)
  case 0
  have "pending c d rnd k 0 = {}" by (simp add: pending_def)
  with 0 have "\<not> length opts < 4" by simp
  then show ?case by (simp add: collect_stop)
next
  case (Suc n)
  let ?w = "wrongAnswer c d (rnd k)"
  show ?case
  proof (cases "length opts < 4")
    case False
    then show ?thesis by (simp add: collect_stop)
  next
    case short: True
    show ?thesis
    proof (cases "0 < ?w \<and> ?w \<notin> set opts")
      case True
      have sub: "pending c d rnd k (Suc n) - set opts - {?w} \<subseteq> pending c d rnd (Suc k) n - set (opts @ [?w])"
      proof
        fix x assume x: "x \<in> pending c d rnd k (Suc n) - set opts - {?w}"
        then obtain j where j: "k \<le> j" "j < k + Suc n" "x = wrongAnswer c d (rnd j)" "0 < x"
          by (auto simp: pending_def)
        from x j have "j \<noteq> k" by auto
        with j have "Suc k \<le> j" "j < Suc k + n" by auto
        with j x show "x \<in> pending c d rnd (Suc k) n - set (opts @ [?w])"
          by (auto simp: pending_def)
      qed
      have "card (pending c d rnd k (Suc n) - set opts) \<le> Suc (card (pending c d rnd k (Suc n) - set opts - {?w}))"
        by (rule card_le_Suc_Diff1) (simp add: finite_pending)
      also have "card (pending c d rnd k (Suc n) - set opts - {?w}) \<le> card (pending c d rnd (Suc k) n - set (opts @ [?w]))"
        by (rule card_mono[OF _ sub]) (simp add: finite_pending)
      finally have "4 \<le> length (opts @ [?w]) + card (pending c d rnd (Suc k) n - set (opts @ [?w]))"
        using Suc.prems by simp
      from Suc.IH[OF this] show ?thesis using short True by (simp add: collect_accept)
    next
      case False
      have sub: "pending c d rnd k (Suc n) - set opts \<subseteq> pending c d rnd (Suc k) n - set opts"
      proof
        fix x assume x: "x \<in> pending c d rnd k (Suc n) - set opts"
        then obtain j where j: "k \<le> j" "j < k + Suc n" "x = wrongAnswer c d (rnd j)" "0 < x"
          by (auto simp: pending_def)
        from x j False have "j \<noteq> k" by auto
        with j have "Suc k \<le> j" "j < Suc k + n" by auto
        with j x show "x \<in> pending c d rnd (Suc k) n - set opts"
          by (auto simp: pending_def)
      qed
      have "card (pending c d rnd k (Suc n) - set opts) \<le> card (pending c d rnd (Suc k) n - set opts)"
        by (rule card_mono[OF _ sub]) (simp add: finite_pending)
      with Suc.prems have "4 \<le> length opts + card (pending c d rnd (Suc k) n - set opts)" by simp
      from Suc.IH[OF this] show ?thesis using short False by (simp add: collect_reject)
    qed
  qed
qed

lemma collect_returns_if:
  assumes "3 \<le> length (drawn c d rnd n)"
  shows "\<exists>r. collect c d rnd 0 [c] = Some r"
proof -
  have "set (drawn c d rnd n) = pending c d rnd 0 n - set [c]"
    by (auto simp: set_drawn pending_def)
  with assms have "4 \<le> length [c] + card (pending c d rnd 0 n - set [c])"
    by (simp add: length_drawn)
  then show ?thesis by (rule collect_returns_aux)
qed

lemma collect_returns_only_if_aux:
  assumes few: "\<forall>n. length (drawn c d rnd n) < 3"
    and ret: "collect c' d' rnd' k opts = Some r"
  shows "c' = c \<and> d' = d \<and> rnd' = rnd \<and> distinct opts \<and> c \<in> set opts
         \<and> set opts - {c} \<subseteq> set (drawn c d rnd k) \<longrightarrow> False"
proof (rule collect.raw_induct[where P = "\<lambda>c' d' rnd' k opts r.
    c' = c \<and> d' = d \<and> rnd' = rnd \<and> distinct opts \<and> c \<in> set opts
    \<and> set opts - {c} \<subseteq> set (drawn c d rnd k) \<longrightarrow> False", OF _ ret], goal_cases)
  case (1 collect' c' d' rnd' k opts r)
  show ?case
  proof
    assume a: "c' = c \<and> d' = d \<and> rnd' = rnd \<and> distinct opts \<and> c \<in> set opts
      \<and> set opts - {c} \<subseteq> set (drawn c d rnd k)"
    let ?w = "wrongAnswer c d (rnd k)"
    have "card (set opts) \<le> card (insert c (set (drawn c d rnd k)))"
      by (rule card_mono) (use a in auto)
    also have "\<dots> \<le> Suc (card (set (drawn c d rnd k)))"
      by (simp add: card_insert_if)
    also have "\<dots> < 4" using few[rule_format, of k] by (simp add: length_drawn)
    finally have short: "length opts < 4" using a by (simp add: distinct_card)
    have mono: "set (drawn c d rnd k) \<subseteq> set (drawn c d rnd (Suc k))"
      by (auto simp: set_drawn less_Suc_eq)
    show False
    proof (cases "0 < ?w \<and> ?w \<notin> set opts")
      case True
      with short 1(2) a have "collect' c d rnd (Suc k) (opts @ [?w]) = Some r"
        by (simp add: Let_def)
      moreover have "?w \<in> set (drawn c d rnd (Suc k))"
        using True a by (auto simp: set_drawn)
      ultimately show False using 1(1)[of c d rnd "Suc k" "opts @ [?w]" r] a True mono by auto
    next
      case False
      with short 1(2) a have "collect' c d rnd (Suc k) opts = Some r"
        by (auto simp add: Let_def)
      then show False using 1(1)[of c d rnd "Suc k" opts r] a mono by auto
    qed
  qed
qed

lemma collect_returns_only_if:
  assumes "\<forall>n. length (drawn c d rnd n) < 3"
  shows "collect c d rnd 0 [c] = None"
proof (cases "collect c d rnd 0 [c]")
  case None then show ?thesis .
next
  case (Some r)
  from collect_returns_only_if_aux[OF assms Some] show ?thesis by simp
qed

lemma collect_returns_iff:
  "(\<exists>r. collect c d rnd 0 [c] = Some r) \<longleftrightarrow> (\<exists>n. 3 \<le> length (drawn c d rnd n))"
  using collect_returns_if collect_returns_only_if
  by (metis not_le option.distinct(1))


lemma random_values:
  "isRandom (0, 0)" "isRandom (1, - 1)" "isRandom (1, - 2)" "isRandom (3, - 2)"
  using valueOf_neg_exponent[of 1 1] valueOf_neg_exponent[of 1 2] valueOf_neg_exponent[of 3 2]
  by (simp_all add: isRandom_def) (simp add: valueOf_def)

lemma signOf_values: "signOf (3, - 2) = 1" "signOf (1, - 2) = - 1"
  using valueOf_neg_exponent[of 3 2] valueOf_neg_exponent[of 1 2] by (simp_all add: signOf_def)

lemma wrongAnswer_const: "wrongAnswer 12 1 ((1, - 2), (3, - 2)) = 14"
  by (simp add: wrongAnswer_def offsetOf_def signOf_values double_eval)

lemma drawn_const_short: "length (drawn 12 1 (\<lambda>k. ((1, - 2), (3, - 2))) n) < 3"
proof -
  have "set (drawn 12 1 (\<lambda>k. ((1, - 2), (3, - 2))) n) \<subseteq> {14}"
    by (auto simp: set_drawn wrongAnswer_const)
  then have "card (set (drawn 12 1 (\<lambda>k. ((1, - 2), (3, - 2))) n)) \<le> card {14::int}"
    by (intro card_mono) auto
  then show ?thesis by (simp add: length_drawn)
qed

text \<open>
  C2, as stated, fails. The loop has no bound on its passes, and a sequence of draws
  that keeps producing the same decoy never fills the array: with the correct answer
  12, difficulty 1 and every pass drawing the double \<open>1/4\<close> for the offset and \<open>3/4\<close> for the
  sign, each pass proposes 14, and the loop never returns.
\<close>

theorem collect_constant_draws_diverges:
  "legal (\<lambda>k. ((1, - 2), (3, - 2)))
   \<and> collect 12 1 (\<lambda>k. ((1, - 2), (3, - 2))) 0 [12] = None"
  using collect_returns_only_if[of 12 1 "\<lambda>k. ((1, - 2), (3, - 2))"] drawn_const_short
  by (simp add: legal_def random_values)

lemma legal_fairDraws: "legal (fairDraws d)"
  by (simp add: legal_def fairDraws_def random_values)

lemma offsetOf_table:
  "offsetOf d (0, 0) = 1"
  "offsetOf 1 (1, - 1) = 4" "offsetOf 2 (1, - 1) = 3" "offsetOf 3 (1, - 1) = 3"
  "offsetOf 4 (1, - 1) = 2" "offsetOf 5 (1, - 1) = 2"
  "offsetOf 1 (3, - 2) = 5" "offsetOf 2 (3, - 2) = 4" "offsetOf 3 (3, - 2) = 4"
  "offsetOf 4 (3, - 2) = 3"
  by (simp_all add: offsetOf_def double_eval)

lemma offsetOf_fair:
  assumes "1 \<le> d" "d \<le> 5"
  shows "offsetOf d (0, 0) = 1" "1 < offsetOf d (1, - 1)"
    "d \<le> 4 \<Longrightarrow> offsetOf d (1, - 1) < offsetOf d (3, - 2)"
proof -
  from assms have d: "d = 1 \<or> d = 2 \<or> d = 3 \<or> d = 4 \<or> d = 5" by arith
  show "offsetOf d (0, 0) = 1" by (rule offsetOf_table)
  from d show "1 < offsetOf d (1, - 1)" by (auto simp: offsetOf_table)
  from d show "d \<le> 4 \<Longrightarrow> offsetOf d (1, - 1) < offsetOf d (3, - 2)"
    by (auto simp: offsetOf_table)
qed

lemma drawn_fair:
  assumes "0 < c" "1 \<le> d" "d \<le> 5" "2 \<le> c \<or> d \<le> 4"
  shows "3 \<le> length (drawn c d (fairDraws d) 3)"
proof -
  have n: "[0..<3] = [0, 1, 2]" by (simp add: upt_rec)
  show ?thesis
    using assms offsetOf_fair[OF assms(2,3)]
    by (cases "d \<le> 4") (auto simp: drawn_def n fairDraws_def wrongAnswer_def signOf_values)
qed

text \<open>
  C2, amended. The loop returns exactly when the draws at some point have produced
  three different values that are positive and are not the correct answer. For every
  positive correct answer \<open>c\<close> and difficulty \<open>d\<close> from 1 to 5 with \<open>2 \<le> c\<close> or \<open>d \<le> 4\<close>
  such draws exist among the values \<^verbatim>\<open>Math.random()\<close> can return.
\<close>

theorem collect_returns_exactly_when:
  "((\<exists>r. collect c d rnd 0 [c] = Some r) \<longleftrightarrow> (\<exists>n. 3 \<le> length (drawn c d rnd n)))
   \<and> (0 < c \<and> 1 \<le> d \<and> d \<le> 5 \<and> (2 \<le> c \<or> d \<le> 4) \<longrightarrow>
        legal (fairDraws d) \<and> (\<exists>r. collect c d (fairDraws d) 0 [c] = Some r))"
  using collect_returns_iff[of c d rnd] collect_returns_if[OF drawn_fair, of c d] legal_fairDraws[of d]
  by blast

theorem collect_returns_exactly_when_witness:
  "(\<exists>r. collect 12 1 (fairDraws 1) 0 [12] = Some r) \<and> 3 \<le> length (drawn 12 1 (fairDraws 1) 3)
   \<and> legal (fairDraws 1)"
proof -
  have d: "3 \<le> length (drawn 12 1 (fairDraws 1) 3)"
    by (simp add: drawn_def upt_rec fairDraws_def wrongAnswer_def offsetOf_def signOf_values
        double_eval)
  have h: "(0::int) < 12 \<and> (1::int) \<le> 1 \<and> (1::int) \<le> 5 \<and> ((2::int) \<le> 12 \<or> (1::int) \<le> 4)" by simp
  from collect_returns_exactly_when[of 12 1 "fairDraws 1"] d h show ?thesis by blast
qed


text \<open>
  The remaining pair, correct answer 1 at difficulty 5 (and above, since the code takes
  \<^verbatim>\<open>Math.min(difficulty, 5)\<close>): the offsets are 1 and 2, so the only decoys the loop can
  accept are 2 and 3, and it returns for no draws at all. \<^verbatim>\<open>generateProblem\<close> yields the
  answer 1 when both operands are drawn as 1.
\<close>

lemma offsetOf_5: "isRandom r \<Longrightarrow> offsetOf 5 r = 1 \<or> offsetOf 5 r = 2"
  using offsetOf_range[of r 5] by auto

lemma signOf_cases: "signOf r = 1 \<or> signOf r = - 1"
  by (simp add: signOf_def)

lemma collect_one_five_diverges:
  assumes "legal rnd"
  shows "collect 1 5 rnd 0 [1] = None"
proof (rule collect_returns_only_if, rule allI)
  fix n
  have "set (drawn 1 5 rnd n) \<subseteq> {2, 3}"
  proof
    fix w assume "w \<in> set (drawn 1 5 rnd n)"
    then obtain j where w: "w = wrongAnswer 1 5 (rnd j)" "0 < w" "w \<noteq> 1"
      by (auto simp: set_drawn)
    from assms have "isRandom (fst (rnd j))" by (auto simp: legal_def)
    from offsetOf_5[OF this] signOf_cases[of "snd (rnd j)"] w
    show "w \<in> {2, 3}" by (auto simp: wrongAnswer_def)
  qed
  then have "card (set (drawn 1 5 rnd n)) \<le> card {2, 3 :: int}"
    by (intro card_mono) auto
  then show "length (drawn 1 5 rnd n) < 3" by (simp add: length_drawn)
qed

lemma generateProblem_one: "answer (generateProblem 5 ((0, 0), (0, 0))) = 1"
  by (simp add: generateProblem_def double_eval)


section \<open>The round session\<close>

subsection \<open>What the effects do\<close>

text \<open>
  The effects leave the refs of the lifecycle, the question and the score alone. With a
  question shown and time left they start the tick timer; with the time used up they
  lock the session, and the render that follows runs the cleanup of the timeout effect,
  which clears the completion timer that the effect has just started.
\<close>

lemmas effect_defs =
  effects_def timerEffect_def timerEffect_cleanup_def timeoutEffect_def timeoutEffect_cleanup_def

lemma effects_frame:
  "mountedRef (effects g s) = mountedRef s"
  "completed (effects g s) = completed s"
  "problem (effects g s) = problem s"
  "gameInitialized (effects g s) = gameInitialized s"
  "timeLeft (effects g s) = timeLeft s"
  "sessionScore (effects g s) = sessionScore s"
  "options (effects g s) = options s"
  "imageError (effects g s) = imageError s"
  by (simp_all add: effect_defs split: option.splits)

lemma render_frame:
  "mountedRef (render g s) = mountedRef s"
  "completed (render g s) = completed s"
  "problem (render g s) = problem s"
  "gameInitialized (render g s) = gameInitialized s"
  "timeLeft (render g s) = timeLeft s"
  "sessionScore (render g s) = sessionScore s"
  "options (render g s) = options s"
  "imageError (render g s) = imageError s"
  by (simp_all add: render_def Let_def effects_frame)

lemma effects_armed:
  assumes "armed p n s" "1 \<le> n"
  shows "counting p n (effects g s)"
  using assms by (simp add: armed_def counting_def effect_defs)

lemma render_armed:
  assumes "armed p n s" "1 \<le> n"
  shows "counting p n (render g s)"
proof -
  from effects_armed[OF assms] have c: "counting p n (effects g s)" .
  then have "\<not> timeoutCleanup (effects g s)" by (simp add: counting_def armed_def)
  then have "render g s = effects g s" by (simp add: render_def Let_def)
  with c show ?thesis by simp
qed

lemma effects_expired:
  assumes "armed p n s" "n \<le> 0"
  shows "selectedOption (effects g s) = Some (correctOf g p)"
    "isCorrect (effects g s) = Some False"
    "isTransitioning (effects g s)"
    "timeoutCleanup (effects g s)"
    "completionRef (effects g s) = Some (sessionScore s, False)"
    "timerRef (effects g s) = (timerRef s \<and> \<not> timerCleanup s)"
    "\<not> timerCleanup (effects g s)"
  using assms by (simp_all add: armed_def effect_defs)

lemma effects_selected:
  assumes "selectedOption s \<noteq> None"
  shows "selectedOption (effects g s) = selectedOption s"
    "isCorrect (effects g s) = isCorrect s"
    "isTransitioning (effects g s) = isTransitioning s"
    "\<not> timeoutCleanup (effects g s)"
    "completionRef (effects g s) = (if timeoutCleanup s then None else completionRef s)"
    "timerRef (effects g s) = (timerRef s \<and> \<not> timerCleanup s)"
    "\<not> timerCleanup (effects g s)"
  using assms by (auto simp add: effect_defs split: option.splits)

lemma render_expired:
  assumes "armed p n s" "n \<le> 0"
  shows "selectedOption (render g s) = Some (correctOf g p)"
    "isCorrect (render g s) = Some False"
    "isTransitioning (render g s)"
    "completionRef (render g s) = None"
    "timerRef (render g s) = (timerRef s \<and> \<not> timerCleanup s)"
proof -
  note e = effects_expired[OF assms, of g]
  have r: "render g s = effects g (effects g s)"
    using e(4) by (simp add: render_def Let_def)
  have sel: "selectedOption (effects g s) \<noteq> None" using e(1) by simp
  note l = effects_selected[OF sel, of g]
  show "selectedOption (render g s) = Some (correctOf g p)" using r l(1) e(1) by simp
  show "isCorrect (render g s) = Some False" using r l(2) e(2) by simp
  show "isTransitioning (render g s)" using r l(3) e(3) by simp
  show "completionRef (render g s) = None" using r l(5) e(4) by simp
  show "timerRef (render g s) = (timerRef s \<and> \<not> timerCleanup s)" using r l(6) e(6) e(7) by simp
qed


lemma mount_counting:
  assumes "1 \<le> T"
  shows "counting p T (mount g T (Returns p) (Returns os))"
proof -
  have "armed p T (initializeGame g T (Returns p) (Returns os) ((firstRender T)\<lparr>mountedRef := True\<rparr>))"
    by (simp add: armed_def initializeGame_def firstRender_def)
  from render_armed[OF this assms] show ?thesis by (simp add: mount_def)
qed

lemma fireTick_unfold:
  assumes "counting p n s"
  shows "fireTick g s = render g (s\<lparr>timerRef := False, timeLeft := n - 1\<rparr>)"
    and "armed p (n - 1) (s\<lparr>timerRef := False, timeLeft := n - 1\<rparr>)"
  using assms by (simp_all add: counting_def armed_def fireTick_def tickCallback_def)

lemma fireTick_counting:
  assumes "counting p n s" "2 \<le> n"
  shows "counting p (n - 1) (fireTick g s)"
proof -
  note u = fireTick_unfold(1)[OF assms(1), of g] fireTick_unfold(2)[OF assms(1)]
  from assms(2) have "1 \<le> n - 1" by simp
  from render_armed[OF u(2) this] u(1) show ?thesis by simp
qed

lemma fireTick_last:
  assumes "counting p 1 s"
  shows "timedOut g p (fireTick g s)" "completionRef (fireTick g s) = None"
    "completed (fireTick g s) = completed s"
proof -
  note u = fireTick_unfold(1)[OF assms(1), of g] fireTick_unfold(2)[OF assms(1)]
  have le: "(1::int) - 1 \<le> 0" by simp
  note r = render_expired[OF u(2) le, of g]
  show "timedOut g p (fireTick g s)"
    using r u(1) by (simp add: timedOut_def render_frame)
  show "completionRef (fireTick g s) = None" using r u(1) by simp
  show "completed (fireTick g s) = completed s" using u(1) by (simp add: render_frame)
qed

lemma fireTick_idle: "\<not> timerRef s \<Longrightarrow> fireTick g s = s"
  by (simp add: fireTick_def)

lemma ticks_counting:
  "counting p n s \<Longrightarrow> int j < n \<Longrightarrow> counting p (n - int j) ((fireTick g ^^ j) s)"
proof (induction j)
  case 0
  then show ?case by simp
next
  case (Suc j)
  then have "counting p (n - int j) ((fireTick g ^^ j) s)" by simp
  moreover from Suc.prems have "2 \<le> n - int j" by simp
  ultimately have "counting p (n - int j - 1) (fireTick g ((fireTick g ^^ j) s))"
    by (rule fireTick_counting)
  then show ?case by (simp add: algebra_simps)
qed

lemma handleOptionSelect_frame:
  "mountedRef (handleOptionSelect g d opt s) = mountedRef s"
  "completed (handleOptionSelect g d opt s) = completed s"
  "problem (handleOptionSelect g d opt s) = problem s"
  "gameInitialized (handleOptionSelect g d opt s) = gameInitialized s"
  by (simp_all add: handleOptionSelect_def Let_def split: option.splits)

lemma select_frame:
  "mountedRef (select g d opt s) = mountedRef s"
  "completed (select g d opt s) = completed s"
  "problem (select g d opt s) = problem s"
  "gameInitialized (select g d opt s) = gameInitialized s"
  by (simp_all add: select_def Let_def render_frame handleOptionSelect_frame)

lemma fireTick_frame:
  "mountedRef (fireTick g s) = mountedRef s"
  "completed (fireTick g s) = completed s"
  "problem (fireTick g s) = problem s"
  "gameInitialized (fireTick g s) = gameInitialized s"
  by (simp_all add: fireTick_def Let_def render_frame tickCallback_def)

lemma fireCompletion_frame:
  "mountedRef (fireCompletion s) = mountedRef s"
  "problem (fireCompletion s) = problem s"
  "gameInitialized (fireCompletion s) = gameInitialized s"
  "\<not> mountedRef s \<Longrightarrow> completed (fireCompletion s) = completed s"
  by (simp_all add: fireCompletion_def completionCallback_def split: option.splits)

lemma lateTick_frame:
  "mountedRef (step g d LateTick s) = mountedRef s"
  "completed (step g d LateTick s) = completed s"
  "problem (step g d LateTick s) = problem s"
  "gameInitialized (step g d LateTick s) = gameInitialized s"
  by (simp_all add: Let_def render_frame tickCallback_def)

lemma select_counting:
  assumes "counting p n s"
  shows "selectedOption (select g d opt s) = Some opt"
    "isCorrect (select g d opt s) = Some (opt = correctOf g p)"
    "isTransitioning (select g d opt s)"
    "\<not> timerRef (select g d opt s)"
    "completionRef (select g d opt s) =
       Some (if opt = correctOf g p then sessionScore s + pointsEarned (factor g) n d
             else sessionScore s, opt = correctOf g p)"
    "sessionScore (select g d opt s) =
       (if opt = correctOf g p then sessionScore s + pointsEarned (factor g) n d else sessionScore s)"
    "mountedRef (select g d opt s)"
proof -
  let ?h = "handleOptionSelect g d opt s"
  have h: "selectedOption ?h = Some opt" "isCorrect ?h = Some (opt = correctOf g p)"
    "isTransitioning ?h" "timerRef ?h" "timerCleanup ?h" "\<not> timeoutCleanup ?h"
    "completionRef ?h = Some (if opt = correctOf g p then sessionScore s + pointsEarned (factor g) n d
             else sessionScore s, opt = correctOf g p)"
    "sessionScore ?h = (if opt = correctOf g p then sessionScore s + pointsEarned (factor g) n d else sessionScore s)"
    using assms by (simp_all add: counting_def armed_def handleOptionSelect_def Let_def)
  have "isTransitioning ?h \<noteq> isTransitioning s" using h(3) assms by (simp add: counting_def armed_def)
  then have "?h \<noteq> s" by auto
  then have sel: "select g d opt s = render g ?h" by (simp add: select_def Let_def)
  have ne: "selectedOption ?h \<noteq> None" using h(1) by simp
  note e = effects_selected[OF ne, of g]
  have r: "render g ?h = effects g ?h" using e(4) by (simp add: render_def Let_def)
  show "selectedOption (select g d opt s) = Some opt" using sel r e(1) h(1) by simp
  show "isCorrect (select g d opt s) = Some (opt = correctOf g p)" using sel r e(2) h(2) by simp
  show "isTransitioning (select g d opt s)" using sel r e(3) h(3) by simp
  show "\<not> timerRef (select g d opt s)" using sel r e(6) h(5) by simp
  show "completionRef (select g d opt s) =
       Some (if opt = correctOf g p then sessionScore s + pointsEarned (factor g) n d
             else sessionScore s, opt = correctOf g p)"
    using sel r e(5) h(6) h(7) by simp
  show "sessionScore (select g d opt s) =
       (if opt = correctOf g p then sessionScore s + pointsEarned (factor g) n d else sessionScore s)"
    using sel r h(8) by (simp add: effects_frame)
  show "mountedRef (select g d opt s)" using assms by (simp add: select_frame counting_def armed_def)
qed

lemma fireCompletion_pending:
  "completionRef s = Some args \<Longrightarrow> mountedRef s \<Longrightarrow>
   completed (fireCompletion s) = completed s @ [args]"
  by (simp add: fireCompletion_def completionCallback_def)

subsection \<open>A second selection\<close>

lemma handleOptionSelect_selected:
  "selectedOption s \<noteq> None \<Longrightarrow> handleOptionSelect g d opt s = s"
  by (simp add: handleOptionSelect_def split: option.splits)

text \<open>
  C4. In every session state in which \<^verbatim>\<open>selectedOption\<close> is set, by a pick of the player
  or by the timeout, a call of the select operation changes nothing: the handler returns
  the state it was given, with the question, the options, the selection, the verdict,
  the time, the score, the transitioning flag and the pending timers as they were, and no
  render follows. The guard is the same line in the four components.
\<close>

theorem select_after_lock_is_noop:
  assumes "selectedOption s \<noteq> None"
  shows "handleOptionSelect g d opt s = s \<and> select g d opt s = s \<and> step g d (Select opt) s = s"
  using assms by (simp add: handleOptionSelect_selected select_def)

theorem select_after_lock_is_noop_witness:
  "selectedOption (select MultiplicationGame 2 12
       (mount MultiplicationGame 20 (Returns \<lparr>num1 = 3, num2 = 4, answer = 12\<rparr>) (Returns [13, 12, 11, 14])))
     = Some 12
   \<and> select MultiplicationGame 2 13 (select MultiplicationGame 2 12
       (mount MultiplicationGame 20 (Returns \<lparr>num1 = 3, num2 = 4, answer = 12\<rparr>) (Returns [13, 12, 11, 14])))
     = select MultiplicationGame 2 12
       (mount MultiplicationGame 20 (Returns \<lparr>num1 = 3, num2 = 4, answer = 12\<rparr>) (Returns [13, 12, 11, 14]))"
proof -
  let ?init = "mount MultiplicationGame 20 (Returns \<lparr>num1 = 3, num2 = 4, answer = 12\<rparr>) (Returns [13, 12, 11, 14])"
  have "counting \<lparr>num1 = 3, num2 = 4, answer = 12\<rparr> 20 ?init" by (rule mount_counting) simp
  from select_counting(1)[OF this, of MultiplicationGame 2 12]
  have s: "selectedOption (select MultiplicationGame 2 12 ?init) = Some 12" .
  then have "selectedOption (select MultiplicationGame 2 12 ?init) \<noteq> None" by simp
  from select_after_lock_is_noop[OF this, of MultiplicationGame 2 13] s show ?thesis by simp
qed

subsection \<open>Running out of time\<close>

text \<open>
  C5. A session mounted with \<open>T \<ge> 1\<close> seconds in which the player selects nothing: before
  the \<open>T\<close>-th tick nothing is selected, the time left after \<open>j\<close> ticks is \<open>T - j\<close> and the
  tick timer is running; after exactly \<open>T\<close> ticks the correct answer is selected,
  \<^verbatim>\<open>isCorrect\<close> is false, the transitioning flag is set, the time left is 0, and no tick
  timer is pending, so that no further tick changes the state.
\<close>

theorem timeout_locks_session:
  assumes "1 \<le> T"
  shows "(\<forall>j < nat T. selectedOption ((fireTick g ^^ j) (mount g T (Returns p) (Returns os))) = None
            \<and> timeLeft ((fireTick g ^^ j) (mount g T (Returns p) (Returns os))) = T - int j
            \<and> timerRef ((fireTick g ^^ j) (mount g T (Returns p) (Returns os))))
         \<and> selectedOption ((fireTick g ^^ nat T) (mount g T (Returns p) (Returns os))) = Some (correctOf g p)
         \<and> isCorrect ((fireTick g ^^ nat T) (mount g T (Returns p) (Returns os))) = Some False
         \<and> isTransitioning ((fireTick g ^^ nat T) (mount g T (Returns p) (Returns os)))
         \<and> timeLeft ((fireTick g ^^ nat T) (mount g T (Returns p) (Returns os))) = 0
         \<and> \<not> timerRef ((fireTick g ^^ nat T) (mount g T (Returns p) (Returns os)))
         \<and> fireTick g ((fireTick g ^^ nat T) (mount g T (Returns p) (Returns os)))
             = (fireTick g ^^ nat T) (mount g T (Returns p) (Returns os))"
proof -
  let ?init = "mount g T (Returns p) (Returns os)"
  have c0: "counting p T ?init" using assms by (rule mount_counting)
  have before: "counting p (T - int j) ((fireTick g ^^ j) ?init)" if "j < nat T" for j
    using ticks_counting[OF c0, of j g] that by simp
  obtain m where m: "nat T = Suc m" using assms by (cases "nat T") auto
  have "counting p (T - int m) ((fireTick g ^^ m) ?init)" using before[of m] m by simp
  moreover have "T - int m = 1" using m assms by linarith
  ultimately have "counting p 1 ((fireTick g ^^ m) ?init)" by simp
  from fireTick_last(1)[OF this, of g] have l: "timedOut g p ((fireTick g ^^ nat T) ?init)"
    by (simp add: m)
  then have "fireTick g ((fireTick g ^^ nat T) ?init) = (fireTick g ^^ nat T) ?init"
    by (simp add: timedOut_def fireTick_idle)
  with l before show ?thesis by (auto simp: timedOut_def counting_def armed_def)
qed


theorem timeout_locks_session_witness:
  "(1::int) \<le> 3
   \<and> selectedOption ((fireTick MultiplicationGame ^^ 3)
        (mount MultiplicationGame 3 (Returns \<lparr>num1 = 3, num2 = 4, answer = 12\<rparr>) (Returns [13, 12, 11, 14])))
      = Some 12
   \<and> isCorrect ((fireTick MultiplicationGame ^^ 3)
        (mount MultiplicationGame 3 (Returns \<lparr>num1 = 3, num2 = 4, answer = 12\<rparr>) (Returns [13, 12, 11, 14])))
      = Some False
   \<and> selectedOption ((fireTick MultiplicationGame ^^ 2)
        (mount MultiplicationGame 3 (Returns \<lparr>num1 = 3, num2 = 4, answer = 12\<rparr>) (Returns [13, 12, 11, 14])))
      = None"
proof -
  have h: "(1::int) \<le> 3" by simp
  have n: "nat 3 = 3" "(2::nat) < 3" by simp_all
  from timeout_locks_session[OF h, of MultiplicationGame "\<lparr>num1 = 3, num2 = 4, answer = 12\<rparr>" "[13, 12, 11, 14]"]
  show ?thesis unfolding n using n(2) by (simp add: MultiplicationGame_def)
qed

text \<open>
  The session that has timed out stays as it is. The render that follows the lock has run
  the cleanup of the timeout effect, so the completion timer that the effect started is
  no longer pending: neither ticks nor clicks nor the firing of pending timers change the
  state or report anything.
\<close>

lemma fireCompletion_idle: "completionRef s = None \<Longrightarrow> fireCompletion s = s"
  by (simp add: fireCompletion_def)

lemma timed_out_session_is_inert:
  assumes "counting p 1 s" and evs: "set evs \<subseteq> {Tick, Completion} \<union> range Select"
  shows "run g d evs (fireTick g s) = fireTick g s"
proof -
  note l = fireTick_last[OF assms(1), of g]
  have inert: "step g d e (fireTick g s) = fireTick g s" if "e \<in> {Tick, Completion} \<union> range Select" for e
  proof -
    have "selectedOption (fireTick g s) \<noteq> None" using l(1) by (simp add: timedOut_def)
    then have "select g d opt (fireTick g s) = fireTick g s" for opt
      by (simp add: handleOptionSelect_selected select_def)
    moreover have "fireTick g (fireTick g s) = fireTick g s"
      using l(1) by (simp add: timedOut_def fireTick_idle)
    moreover have "fireCompletion (fireTick g s) = fireTick g s"
      using l(2) by (rule fireCompletion_idle)
    ultimately show ?thesis using that by auto
  qed
  from evs show ?thesis
    by (induction evs) (simp_all add: inert)
qed

subsection \<open>Teardown\<close>

lemma step_unmounted:
  assumes "\<not> mountedRef s"
  shows "\<not> mountedRef (step g d e s)" "completed (step g d e s) = completed s"
  using assms
  by (cases e; simp add: fireTick_frame fireCompletion_frame select_frame lateTick_frame
        completionCallback_def unmount_def del: step.simps(4))+

lemma run_unmounted:
  "\<not> mountedRef s \<Longrightarrow> completed (run g d evs s) = completed s"
  by (induction evs arbitrary: s) (simp_all add: step_unmounted)

text \<open>
  C6. Unmounting a session, in whatever state, clears \<^verbatim>\<open>mountedRef\<close>, the pending tick
  timer and the pending completion timer. After it no sequence of events makes a call of
  \<^verbatim>\<open>onComplete\<close>: not the firing of timers, not a click, and not a timer callback that
  runs although its timer has been cleared, since both callbacks do nothing when
  \<^verbatim>\<open>mountedRef\<close> is false. In particular a completion timer that was started before the
  unmount never reports.
\<close>

theorem no_completion_after_unmount:
  "\<not> mountedRef (unmount s) \<and> \<not> timerRef (unmount s) \<and> completionRef (unmount s) = None
   \<and> completed (run g d evs (unmount s)) = completed s
   \<and> tickCallback (unmount s) = unmount s
   \<and> completionCallback args (unmount s) = unmount s"
proof -
  have u: "\<not> mountedRef (unmount s)" by (simp add: unmount_def)
  from run_unmounted[OF u] show ?thesis
    by (simp add: unmount_def tickCallback_def completionCallback_def)
qed

theorem no_completion_after_unmount_witness:
  "completionRef (select MultiplicationGame 2 12
       (mount MultiplicationGame 20 (Returns \<lparr>num1 = 3, num2 = 4, answer = 12\<rparr>) (Returns [13, 12, 11, 14])))
     \<noteq> None
   \<and> completed (run MultiplicationGame 2 [Completion, Tick, LateCompletion 15 True]
        (unmount (select MultiplicationGame 2 12
          (mount MultiplicationGame 20 (Returns \<lparr>num1 = 3, num2 = 4, answer = 12\<rparr>) (Returns [13, 12, 11, 14])))))
     = []"
proof -
  let ?init = "mount MultiplicationGame 20 (Returns \<lparr>num1 = 3, num2 = 4, answer = 12\<rparr>) (Returns [13, 12, 11, 14])"
  have c: "counting \<lparr>num1 = 3, num2 = 4, answer = 12\<rparr> 20 ?init" by (rule mount_counting) simp
  have "completed ?init = []"
    by (simp add: mount_def render_frame initializeGame_def firstRender_def)
  then have e: "completed (select MultiplicationGame 2 12 ?init) = []" by (simp add: select_frame)
  from select_counting(5)[OF c, of MultiplicationGame 2 12]
  have p: "completionRef (select MultiplicationGame 2 12 ?init) \<noteq> None" by simp
  from no_completion_after_unmount[of "select MultiplicationGame 2 12 ?init" MultiplicationGame 2
      "[Completion, Tick, LateCompletion 15 True]"] e p
  show ?thesis by simp
qed

subsection \<open>One completion for each initialisation\<close>

text \<open>
  Once an option is selected, by the player or by the timeout effect, the handler and the
  timeout effect return at their guards, and only \<^verbatim>\<open>initializeGame\<close> clears the
  selection. So a mounted session calls \<^verbatim>\<open>onComplete\<close> at most once, whatever the
  player and the timers do.
\<close>

lemma effects_atMostOnce: "atMostOnce s \<Longrightarrow> atMostOnce (effects g s)"
  by (auto simp add: atMostOnce_def effect_defs split: option.splits)

lemma render_atMostOnce: "atMostOnce s \<Longrightarrow> atMostOnce (render g s)"
  by (simp add: render_def Let_def effects_atMostOnce)

lemma step_atMostOnce:
  assumes "atMostOnce s" "genuine e"
  shows "atMostOnce (step g d e s)"
proof (cases e)
  case Tick
  have "atMostOnce (tickCallback (s\<lparr>timerRef := False\<rparr>))"
    using assms(1) by (simp add: atMostOnce_def tickCallback_def)
  then show ?thesis using assms(1) Tick by (simp add: fireTick_def Let_def render_atMostOnce)
next
  case Completion
  then show ?thesis using assms(1)
    by (auto simp: atMostOnce_def fireCompletion_def completionCallback_def split: option.splits)
next
  case (Select opt)
  have "atMostOnce (handleOptionSelect g d opt s)"
    using assms(1) by (auto simp: atMostOnce_def handleOptionSelect_def Let_def split: option.splits)
  then show ?thesis using assms(1) Select by (simp add: select_def Let_def render_atMostOnce)
next
  case LateTick
  have "atMostOnce (tickCallback s)"
    using assms(1) by (simp add: atMostOnce_def tickCallback_def)
  then show ?thesis using assms(1) LateTick by (simp add: Let_def render_atMostOnce)
next
  case (LateCompletion points correct)
  with assms(2) show ?thesis by simp
next
  case Unmount
  then show ?thesis using assms(1) by (simp add: atMostOnce_def unmount_def)
qed

lemma run_atMostOnce:
  "atMostOnce s \<Longrightarrow> list_all genuine es \<Longrightarrow> atMostOnce (run g d es s)"
  by (induction es arbitrary: s) (simp_all add: step_atMostOnce del: step.simps)

lemma mount_atMostOnce: "atMostOnce (mount g T newProblem newOptions)"
proof -
  have "atMostOnce (initializeGame g T newProblem newOptions ((firstRender T)\<lparr>mountedRef := True\<rparr>))"
    by (simp add: atMostOnce_def initializeGame_def catchBlock_def firstRender_def Let_def
        split: outcome.splits)
  then show ?thesis by (simp add: mount_def render_atMostOnce)
qed

lemma one_completion_for_each_mount:
  assumes "list_all genuine es"
  shows "length (completed (run g d es (mount g T newProblem newOptions))) \<le> 1"
proof -
  have "atMostOnce (mount g T newProblem newOptions)" by (rule mount_atMostOnce)
  from run_atMostOnce[OF this assms, of g d] show ?thesis by (simp add: atMostOnce_def)
qed

subsection \<open>A generator that throws\<close>

lemma step_problem:
  "problem (step g d e s) = problem s" "gameInitialized (step g d e s) = gameInitialized s"
  by (cases e; simp add: fireTick_frame fireCompletion_frame select_frame lateTick_frame
        completionCallback_def unmount_def del: step.simps(4))+

lemma run_problem:
  "problem (run g d evs s) = problem s"
  by (induction evs arbitrary: s) (simp_all add: step_problem)

lemma mount_problem_throws:
  "problem (mount g T Throws os) = None"
  "gameInitialized (mount g T Throws os)"
  "options (mount g T Throws os) = fallbackOptions g"
  "imageError (mount g T Throws os)"
  "\<not> timerRef (mount g T Throws os)"
  "completionRef (mount g T Throws os) = None"
  "timeLeft (mount g T Throws os) = T"
  by (simp_all add: mount_def render_frame initializeGame_def catchBlock_def firstRender_def
      render_def Let_def effect_defs)

text \<open>
  C8 fails on the code for \<^verbatim>\<open>WordMathGame\<close>, whose question generator throws at
  every initialisation. The \<^verbatim>\<open>catch\<close> block sets the canned options, the image-error
  flag and \<^verbatim>\<open>gameInitialized\<close>, but no question: \<^verbatim>\<open>problem\<close> stays \<^verbatim>\<open>null\<close>. The
  component therefore keeps rendering the loading text, the countdown effect returns at
  its guard \<^verbatim>\<open>!problem\<close>, no timer is started, clicks are ignored, and no later event
  of the session changes that.
\<close>

theorem word_problem_throws_stays_loading:
  "generateWordProblem d rr = Throws
   \<and> gameInitialized (mount WordMathGame T (generateWordProblem d rr) os)
   \<and> options (mount WordMathGame T (generateWordProblem d rr) os) = [6, 8, 10, 12]
   \<and> imageError (mount WordMathGame T (generateWordProblem d rr) os)
   \<and> problem (mount WordMathGame T (generateWordProblem d rr) os) = None
   \<and> showsLoading (mount WordMathGame T (generateWordProblem d rr) os)
   \<and> \<not> timerRef (mount WordMathGame T (generateWordProblem d rr) os)
   \<and> timeLeft (mount WordMathGame T (generateWordProblem d rr) os) = T
   \<and> fireTick WordMathGame (mount WordMathGame T (generateWordProblem d rr) os)
       = mount WordMathGame T (generateWordProblem d rr) os
   \<and> select WordMathGame d opt (mount WordMathGame T (generateWordProblem d rr) os)
       = mount WordMathGame T (generateWordProblem d rr) os
   \<and> showsLoading (run WordMathGame d evs (mount WordMathGame T (generateWordProblem d rr) os))"
proof -
  let ?s = "mount WordMathGame T Throws os"
  note m = mount_problem_throws[of WordMathGame T os]
  have "handleOptionSelect WordMathGame d opt ?s = ?s"
    using m(1) by (simp add: handleOptionSelect_def)
  then have "select WordMathGame d opt ?s = ?s" by (simp add: select_def)
  moreover have "fireTick WordMathGame ?s = ?s" using m(5) by (simp add: fireTick_idle)
  moreover have "showsLoading (run WordMathGame d evs ?s)"
    using m(1) by (simp add: showsLoading_def run_problem)
  ultimately show ?thesis
    using m by (simp add: showsLoading_def WordMathGame_def generateWordProblem_def)
qed

theorem word_problem_throws_stays_loading_witness:
  "options (mount WordMathGame 20 (generateWordProblem 1 ((1, - 1), (3, - 2))) (Returns [13, 12, 11, 14]))
     = [6, 8, 10, 12]
   \<and> problem (mount WordMathGame 20 (generateWordProblem 1 ((1, - 1), (3, - 2))) (Returns [13, 12, 11, 14])) = None
   \<and> showsLoading (run WordMathGame 1 [Tick, Select 6, Completion, Tick]
        (mount WordMathGame 20 (generateWordProblem 1 ((1, - 1), (3, - 2))) (Returns [13, 12, 11, 14])))"
  using word_problem_throws_stays_loading[of 1 "((1, - 1), (3, - 2))" 20 "Returns [13, 12, 11, 14]" 6
      "[Tick, Select 6, Completion, Tick]"]
  by blast

text \<open>
  When the question generator returns and only the option generator throws, the question
  has been stored before the throw, and the session does start: with the canned options,
  the image-error flag and the countdown running. That is the path on which the \<^verbatim>\<open>catch\<close>
  block does what it is written for.
\<close>

lemma mount_options_throw:
  assumes "1 \<le> T"
  shows "counting p T (mount g T (Returns p) Throws)"
    "options (mount g T (Returns p) Throws) = fallbackOptions g"
    "imageError (mount g T (Returns p) Throws)"
    "\<not> showsLoading (mount g T (Returns p) Throws)"
proof -
  let ?i = "initializeGame g T (Returns p) Throws ((firstRender T)\<lparr>mountedRef := True\<rparr>)"
  have a: "armed p T ?i"
    by (simp add: armed_def initializeGame_def catchBlock_def firstRender_def)
  from render_armed[OF a assms] show "counting p T (mount g T (Returns p) Throws)"
    by (simp add: mount_def)
  show "options (mount g T (Returns p) Throws) = fallbackOptions g"
    by (simp add: mount_def render_frame initializeGame_def catchBlock_def firstRender_def)
  show "imageError (mount g T (Returns p) Throws)"
    by (simp add: mount_def render_frame initializeGame_def catchBlock_def firstRender_def)
  show "\<not> showsLoading (mount g T (Returns p) Throws)"
    by (simp add: showsLoading_def mount_def render_frame initializeGame_def catchBlock_def firstRender_def)
qed



section \<open>Scoring\<close>

subsection \<open>The factor \<^verbatim>\<open>0.3\<close>\<close>

text \<open>
  C3, as stated, fails for the factor \<^verbatim>\<open>0.3\<close>: a correct selection in the animals or
  opposites game with 30 seconds left at difficulty 3 earns 26 points, and so does one
  with 15 seconds left at difficulty 6, where \<open>max(1, floor(t * difficulty * 0.3))\<close> is 27.
\<close>

theorem points_three_tenths_rounding:
  "pointsEarned factor03 30 3 = 26 \<and> max 1 \<lfloor>30 * 3 * (3 / 10 :: real)\<rfloor> = 27
   \<and> pointsEarned factor03 15 6 = 26 \<and> max 1 \<lfloor>15 * 6 * (3 / 10 :: real)\<rfloor> = 27"
  by (simp add: points_eval)


subsection \<open>What a selection reports\<close>

lemma ticks_frame:
  "sessionScore ((fireTick g ^^ n) s) = sessionScore s"
  "completed ((fireTick g ^^ n) s) = completed s"
  by (induction n) (simp_all add: fireTick_frame fireTick_def Let_def render_frame tickCallback_def)

text \<open>
  C3, amended. In a session started by mounting a mini-game with \<open>T\<close> seconds, in which
  the player selects an option after \<open>n < T\<close> ticks, that is with \<open>t = T - n\<close> seconds left,
  at a difficulty \<open>d\<close> from 1 to 10, the completion callback reports once: for the correct
  option the points earned and \<^verbatim>\<open>true\<close>, for a wrong option 0 and \<^verbatim>\<open>false\<close>. The points
  earned are \<open>max(1, floor(t * d / 2))\<close> in the multiplication and word-math games (15 for
  \<open>t = 15\<close>, \<open>d = 2\<close>). In the opposites and animals games the products are rounded to
  doubles and the points are \<open>max(1, floor(3 * t * d / 10))\<close>, less one point exactly when
  \<open>N = 3 * t * d / 10\<close> is an integer, \<open>d\<close> is 3, 6 or 9, and \<open>N\<close> is greater than nine eighths
  of the largest power of two not greater than \<open>N\<close>.
\<close>

theorem points_of_a_selection:
  assumes n: "int n < T" and tl: "t = T - int n"
    and d: "1 \<le> d" "d \<le> 10" and small: "T * d < 2 ^ 49"
  shows "completed (fireCompletion (select g d opt
            ((fireTick g ^^ n) (mount g T (Returns p) (Returns os)))))
           = [(if opt = correctOf g p then pointsEarned (factor g) t d else 0, opt = correctOf g p)]
     \<and> factor MultiplicationGame = factor05 \<and> factor WordMathGame = factor05
     \<and> factor AnimalGame = factor03 \<and> factor OppositesGame = factor03
     \<and> pointsEarned factor05 t d = max 1 (t * d div 2)
     \<and> pointsEarned factor03 t d
         = max 1 (3 * t * d div 10 - (if roundedBelow t d then 1 else 0))
     \<and> pointsEarned factor05 15 2 = 15"
proof -
  let ?init = "mount g T (Returns p) (Returns os)"
  let ?s = "(fireTick g ^^ n) ?init"
  from n have T: "1 \<le> T" by simp
  have c0: "counting p T ?init" using T by (rule mount_counting)
  have c: "counting p t ?s" using ticks_counting[OF c0 n, of g] tl by simp
  have z: "sessionScore ?s = 0" "completed ?s = []"
    by (simp_all add: ticks_frame mount_def render_frame initializeGame_def firstRender_def)
  note sc = select_counting[OF c, of g d opt]
  have "completed (fireCompletion (select g d opt ?s))
        = completed (select g d opt ?s) @ [(if opt = correctOf g p then sessionScore ?s + pointsEarned (factor g) t d
             else sessionScore ?s, opt = correctOf g p)]"
    using sc(5) sc(7) by (rule fireCompletion_pending)
  then have rep: "completed (fireCompletion (select g d opt ?s))
           = [(if opt = correctOf g p then pointsEarned (factor g) t d else 0, opt = correctOf g p)]"
    using z by (simp add: select_frame)
  have t1: "1 \<le> t" "t \<le> T" using n tl by simp_all
  have "t * d \<le> T * d" using t1 d by (intro mult_right_mono) auto
  with small have sm: "t * d < 2 ^ 49" by linarith
  have nn: "0 \<le> t * d" using t1 d by simp
  have "d * 1 \<le> d * t" using t1 d by (intro mult_left_mono) auto
  then have dle: "d \<le> t * d" by (simp add: mult.commute)
  have pw: "(2::int) ^ 49 \<le> 2 ^ 53" by simp
  have b1: "\<bar>d\<bar> < 2 ^ 53" using d dle sm pw by linarith
  have b2: "\<bar>t * d\<bar> < 2 ^ 53" using nn sm pw by linarith
  have t0: "0 \<le> t" using t1 by simp
  note three = pointsEarned_three_tenths_exact[OF t0 d sm]
  have ex: "pointsEarned factor05 15 2 = 15" by (simp add: points_eval)
  show ?thesis
    using rep pointsEarned_half[OF b1 b2] three ex
    by (simp add: MultiplicationGame_def WordMathGame_def AnimalGame_def OppositesGame_def)
qed

theorem points_of_a_selection_witness:
  "completed (fireCompletion (select AnimalGame 3 ''dog''
       (mount AnimalGame 30 (Returns \<lparr>animal.name = ''dog'', animal.prompt = ''cute cartoon dog''\<rparr>)
          (Returns [''cat'', ''dog'', ''lion'', ''bear'']))))
     = [(26, True)]
   \<and> completed (fireCompletion (select MultiplicationGame 2 12
        ((fireTick MultiplicationGame ^^ 5)
          (mount MultiplicationGame 20 (Returns \<lparr>num1 = 3, num2 = 4, answer = 12\<rparr>) (Returns [13, 12, 11, 14])))))
      = [(15, True)]
   \<and> completed (fireCompletion (select MultiplicationGame 2 13
        ((fireTick MultiplicationGame ^^ 5)
          (mount MultiplicationGame 20 (Returns \<lparr>num1 = 3, num2 = 4, answer = 12\<rparr>) (Returns [13, 12, 11, 14])))))
      = [(0, False)]"
proof -
  have rb: "roundedBelow 30 3" by (simp add: roundedBelow_def compute_bitlen)
  have a: "int 0 < (30::int)" "(30::int) = 30 - int 0" "(1::int) \<le> 3" "(3::int) \<le> 10"
    "(30::int) * 3 < 2 ^ 49" by simp_all
  have b: "int 5 < (20::int)" "(15::int) = 20 - int 5" "(1::int) \<le> 2" "(2::int) \<le> 10"
    "(20::int) * 2 < 2 ^ 49" by simp_all
  from points_of_a_selection[OF a, of AnimalGame "''dog''"
      "\<lparr>animal.name = ''dog'', animal.prompt = ''cute cartoon dog''\<rparr>"
      "[''cat'', ''dog'', ''lion'', ''bear'']"] rb
  have 1: "completed (fireCompletion (select AnimalGame 3 ''dog''
       (mount AnimalGame 30 (Returns \<lparr>animal.name = ''dog'', animal.prompt = ''cute cartoon dog''\<rparr>)
          (Returns [''cat'', ''dog'', ''lion'', ''bear'']))))
     = [(26, True)]"
    by (simp add: AnimalGame_def)
  from points_of_a_selection[OF b, of MultiplicationGame 12 "\<lparr>num1 = 3, num2 = 4, answer = 12\<rparr>"
      "[13, 12, 11, 14]"]
  have 2: "completed (fireCompletion (select MultiplicationGame 2 12
        ((fireTick MultiplicationGame ^^ 5)
          (mount MultiplicationGame 20 (Returns \<lparr>num1 = 3, num2 = 4, answer = 12\<rparr>) (Returns [13, 12, 11, 14])))))
      = [(15, True)]"
    by (simp add: MultiplicationGame_def)
  from points_of_a_selection[OF b, of MultiplicationGame 13 "\<lparr>num1 = 3, num2 = 4, answer = 12\<rparr>"
      "[13, 12, 11, 14]"]
  have 3: "completed (fireCompletion (select MultiplicationGame 2 13
        ((fireTick MultiplicationGame ^^ 5)
          (mount MultiplicationGame 20 (Returns \<lparr>num1 = 3, num2 = 4, answer = 12\<rparr>) (Returns [13, 12, 11, 14])))))
      = [(0, False)]"
    by (simp add: MultiplicationGame_def)
  from 1 2 3 show ?thesis by blast
qed


text \<open>
  The score of the session is not reset by \<^verbatim>\<open>initializeGame\<close>. When the component is
  initialised again while it stays mounted, a later selection reports the points of the
  earlier rounds again, also when it is wrong.
\<close>

lemma reinitialize_counting:
  assumes "\<not> timeoutCleanup s" "1 \<le> T"
  shows "counting p T (reinitialize g T (Returns p) (Returns os) s)"
    "sessionScore (reinitialize g T (Returns p) (Returns os) s) = sessionScore s"
    "completed (reinitialize g T (Returns p) (Returns os) s) = completed s"
proof -
  let ?i = "initializeGame g T (Returns p) (Returns os)
              (s\<lparr>timerRef := False, completionRef := None, mountedRef := True\<rparr>)"
  have a: "armed p T ?i" using assms(1) by (simp add: armed_def initializeGame_def)
  from render_armed[OF a assms(2)]
  show "counting p T (reinitialize g T (Returns p) (Returns os) s)" by (simp add: reinitialize_def)
  show "sessionScore (reinitialize g T (Returns p) (Returns os) s) = sessionScore s"
    by (simp add: reinitialize_def render_frame initializeGame_def)
  show "completed (reinitialize g T (Returns p) (Returns os) s) = completed s"
    by (simp add: reinitialize_def render_frame initializeGame_def)
qed

lemma earlier_points_are_reported_again:
  assumes c: "counting p t s" and right: "opt = correctOf g p" and wrong: "opt' \<noteq> correctOf g p'"
    and T: "1 \<le> T"
  shows "completed (fireCompletion (select g d' opt'
            (reinitialize g T (Returns p') (Returns os') (fireCompletion (select g d opt s)))))
         = completed s @ [(sessionScore s + pointsEarned (factor g) t d, True),
                           (sessionScore s + pointsEarned (factor g) t d, False)]"
proof -
  let ?s1 = "select g d opt s"
  let ?s2 = "fireCompletion ?s1"
  let ?s3 = "reinitialize g T (Returns p') (Returns os') ?s2"
  note sc = select_counting[OF c, of g d opt]
  have c2: "completed ?s2 = completed s @ [(sessionScore s + pointsEarned (factor g) t d, True)]"
    using fireCompletion_pending[OF sc(5) sc(7)] right by (simp add: select_frame)
  have "sessionScore ?s2 = sessionScore ?s1"
    by (simp add: fireCompletion_def completionCallback_def split: option.splits)
  then have s2: "sessionScore ?s2 = sessionScore s + pointsEarned (factor g) t d"
    using sc(6) right by simp
  have e: "selectedOption ?s1 \<noteq> None" using sc(1) by simp
  have "\<not> timeoutCleanup ?s1"
  proof -
    have "handleOptionSelect g d opt s \<noteq> s"
      using sc(3) c by (auto simp: counting_def armed_def select_def Let_def split: if_splits)
    then have "?s1 = render g (handleOptionSelect g d opt s)" by (simp add: select_def Let_def)
    moreover have sel: "selectedOption (handleOptionSelect g d opt s) \<noteq> None"
      using c by (simp add: handleOptionSelect_def counting_def armed_def Let_def)
    moreover have "render g (handleOptionSelect g d opt s) = effects g (handleOptionSelect g d opt s)"
      using effects_selected(4)[OF sel, of g] by (simp add: render_def Let_def)
    ultimately show ?thesis using effects_selected(4)[OF sel, of g] by simp
  qed
  then have "\<not> timeoutCleanup ?s2"
    by (simp add: fireCompletion_def completionCallback_def split: option.splits)
  note r = reinitialize_counting[OF this T, where p = p' and g = g and os = os']
  note sc3 = select_counting[OF r(1), of g d' opt']
  have "completed (fireCompletion (select g d' opt' ?s3))
        = completed (select g d' opt' ?s3) @ [(sessionScore ?s3, False)]"
    using fireCompletion_pending[OF sc3(5) sc3(7)] wrong by simp
  then show ?thesis using r(2,3) c2 s2 by (simp add: select_frame)
qed

section \<open>The orchestrator\<close>

subsection \<open>What a round completion changes\<close>

text \<open>
  A completion swaps the player index, counts the round and ends the match with the last
  round; it changes the mini-game in no other way. The player who has played gets the
  points and, for a correct answer, one more correct answer; the level rises by one when
  the count has reached five times the level and the level is below 10. The other player
  is left as they are.
\<close>

lemmas app_defs =
  startGame_def initialApp_def defaultPlayers_def selectGameForPlayer_def onComplete_def
  nextTurn_def updatePlayerScore_def checkForLevelUp_def addPoints_def Let_def

lemma onComplete_frame:
  "gameState (onComplete points c st) =
     (if totalRounds (gameSettings st) \<le> roundsPlayed st + 1 then Results else gameState st)"
  "roundsPlayed (onComplete points c st) = roundsPlayed st + 1"
  "currentPlayerIndex (onComplete points c st) = (if currentPlayerIndex st = 0 then 1 else 0)"
  "gameSettings (onComplete points c st) = gameSettings st"
  "length (players (onComplete points c st)) = length (players st)"
  by (simp_all add: onComplete_def nextTurn_def updatePlayerScore_def checkForLevelUp_def Let_def)

lemma onComplete_current:
  assumes "currentPlayerIndex st < length (players st)"
  shows "level (players (onComplete points c st) ! currentPlayerIndex st) =
           (if c \<and> level (players st ! currentPlayerIndex st) * 5
                    \<le> correctAnswers (players st ! currentPlayerIndex st) + 1
                 \<and> level (players st ! currentPlayerIndex st) < 10
            then level (players st ! currentPlayerIndex st) + 1
            else level (players st ! currentPlayerIndex st))"
    and "correctAnswers (players (onComplete points c st) ! currentPlayerIndex st) =
           (if c then correctAnswers (players st ! currentPlayerIndex st) + 1
            else correctAnswers (players st ! currentPlayerIndex st))"
    and "score (players (onComplete points c st) ! currentPlayerIndex st) =
           score (players st ! currentPlayerIndex st) + points"
  using assms
  by (simp_all add: onComplete_def nextTurn_def updatePlayerScore_def checkForLevelUp_def
      addPoints_def Let_def)

lemma onComplete_other:
  assumes "j \<noteq> currentPlayerIndex st"
  shows "players (onComplete points c st) ! j = players st ! j"
  using assms
  by (simp add: onComplete_def nextTurn_def updatePlayerScore_def checkForLevelUp_def Let_def)

lemma onComplete_firstRound:
  assumes "firstRound st True"
  shows "firstRound (onComplete points c st) False"
proof -
  let ?i = "currentPlayerIndex st"
  let ?st = "onComplete points c st"
  from assms have i: "?i < length (players st)" and i2: "?i = 0 \<or> ?i = 1"
    by (auto simp: firstRound_def)
  from assms have z: "level (players st ! ?i) = 1" "correctAnswers (players st ! ?i) = 0"
    using i2 by (auto simp: firstRound_def)
  have cur: "level (players ?st ! ?i) = 1" "correctAnswers (players ?st ! ?i) = (if c then 1 else 0)"
    using z onComplete_current(1,2)[OF i, of points c] by auto
  have oth: "players ?st ! j = players st ! j" if "j \<noteq> ?i" for j
    using onComplete_other[OF that] .
  show ?thesis
  proof (cases "?i = 0")
    case True
    with cur oth[of 1] assms show ?thesis by (auto simp: firstRound_def onComplete_frame)
  next
    case False
    with i2 have "?i = 1" by simp
    with cur oth[of 0] assms show ?thesis by (auto simp: firstRound_def onComplete_frame)
  qed
qed

lemma reachable_firstRound: "reachable st live \<Longrightarrow> firstRound st live"
proof (induction rule: reachable.induct)
  case initial
  show ?case by (simp add: firstRound_def initialApp_def defaultPlayers_def)
next
  case (reset st live)
  then show ?case by (simp add: firstRound_def resetGame_def defaultPlayers_def)
next
  case (start st live ps settings random)
  then show ?case by (simp add: firstRound_def newRoster_def startGame_def Let_def)
next
  case (complete st points correct)
  from onComplete_firstRound[OF complete.IH, of points correct]
  have f: "firstRound (onComplete points correct st) False" .
  then have "difficultyPassed (onComplete points correct st) = 1"
    by (auto simp: firstRound_def difficultyPassed_def currentPlayer_def less_Suc_eq numeral_2_eq_2)
  moreover from complete.IH have "difficultyPassed st = 1"
    by (auto simp: firstRound_def difficultyPassed_def currentPlayer_def less_Suc_eq numeral_2_eq_2)
  ultimately show ?case using f by (simp add: reinitialises_def)
next
  case (notice st live)
  then show ?case by (auto simp: firstRound_def hideLevelUp_def)
qed

lemma defaultMatch_reachable: "reachable defaultMatch True"
proof -
  have n: "newRoster defaultPlayers" by (simp add: newRoster_def defaultPlayers_def)
  have g: "gameState initialApp = Selection" by (simp add: initialApp_def)
  from reachable.start[OF reachable.initial g n] show ?thesis by (simp add: defaultMatch_def)
qed



subsection \<open>The difficulty passed to a session\<close>

text \<open>
  C9. In every state of the running program in which a round session is mounted, the
  difficulty that \<^verbatim>\<open>GamesContainer\<close> passes to it, and it to the generators, is the
  level of the active player, and it lies between 1 and 5. (It is 1: a mounted mini-game
  completes once, the players then have at most one correct answer each, and the first
  level-up needs five.)
\<close>

theorem difficulty_in_range:
  assumes "reachable st live" and "inGame st"
  shows "difficultyPassed st = level (players st ! currentPlayerIndex st)
         \<and> 1 \<le> difficultyPassed st \<and> difficultyPassed st \<le> 5"
proof -
  from reachable_firstRound[OF assms(1)]
  have "level (players st ! currentPlayerIndex st) = 1"
    by (auto simp: firstRound_def less_Suc_eq numeral_2_eq_2)
  then show ?thesis by (simp add: difficultyPassed_def currentPlayer_def)
qed

theorem difficulty_in_range_witness:
  "reachable defaultMatch True \<and> inGame defaultMatch \<and> difficultyPassed defaultMatch = 1"
proof -
  have g: "inGame defaultMatch" by (simp add: defaultMatch_def inGame_def app_defs)
  have "difficultyPassed defaultMatch = 1"
    by (simp add: defaultMatch_def app_defs difficultyPassed_def currentPlayer_def)
  with difficulty_in_range[OF defaultMatch_reachable g] defaultMatch_reachable g
  show ?thesis by simp
qed


subsection \<open>Level-ups\<close>

text \<open>
  C7. Let the active player have level \<open>L\<close> and a count of correct answers that has not
  passed the threshold \<open>5 * L\<close> (or let \<open>L\<close> be 10). A round completion raises the level to
  \<open>L + 1\<close> exactly when the answer was correct, the count thereby reaches \<open>5 * L\<close>, and
  \<open>L < 10\<close>; otherwise the level stays \<open>L\<close>. The level never exceeds 10, the new count has
  again not passed the new threshold, so that the level rises once for each threshold, and
  the other player is left as they are.
\<close>

theorem level_up_at_threshold:
  assumes wf: "wellFormed st"
    and below: "correctAnswers (currentPlayer st) < 5 * level (currentPlayer st)
                \<or> level (currentPlayer st) = 10"
  shows "level (players (onComplete points correct st) ! currentPlayerIndex st) =
           (if correct \<and> correctAnswers (currentPlayer st) + 1 = 5 * level (currentPlayer st)
               \<and> level (currentPlayer st) < 10
            then level (currentPlayer st) + 1 else level (currentPlayer st))
         \<and> level (players (onComplete points correct st) ! currentPlayerIndex st) \<le> 10
         \<and> (correctAnswers (players (onComplete points correct st) ! currentPlayerIndex st)
               < 5 * level (players (onComplete points correct st) ! currentPlayerIndex st)
             \<or> level (players (onComplete points correct st) ! currentPlayerIndex st) = 10)
         \<and> (j \<noteq> currentPlayerIndex st \<longrightarrow>
               players (onComplete points correct st) ! j = players st ! j)"
proof -
  let ?i = "currentPlayerIndex st"
  from wf have i: "?i < length (players st)" and i2: "?i = 0 \<or> ?i = 1"
    by (auto simp: wellFormed_def)
  from wf i2 have lv: "1 \<le> level (players st ! ?i)" "level (players st ! ?i) \<le> 10"
    by (auto simp: wellFormed_def)
  note cur = onComplete_current(1,2)[OF i, of points correct]
  from below lv cur onComplete_other[of j st points correct]
  show ?thesis by (auto simp: currentPlayer_def)
qed

theorem level_up_at_threshold_witness:
  "wellFormed beforeThreshold
   \<and> correctAnswers (currentPlayer beforeThreshold) = 9 \<and> level (currentPlayer beforeThreshold) = 2
   \<and> level (players (onComplete 7 True beforeThreshold) ! 1) = 3
   \<and> level (players (onComplete 0 False beforeThreshold) ! 1) = 2
   \<and> players (onComplete 7 True beforeThreshold) ! 0 = players beforeThreshold ! 0"
proof -
  have wf: "wellFormed beforeThreshold" by (simp add: wellFormed_def beforeThreshold_def)
  have c: "correctAnswers (currentPlayer beforeThreshold) = 9" "level (currentPlayer beforeThreshold) = 2"
    "currentPlayerIndex beforeThreshold = 1"
    by (simp_all add: currentPlayer_def beforeThreshold_def)
  then have b: "correctAnswers (currentPlayer beforeThreshold) < 5 * level (currentPlayer beforeThreshold)
                \<or> level (currentPlayer beforeThreshold) = 10" by simp
  from level_up_at_threshold[OF wf b, of 7 True 0] level_up_at_threshold[OF wf b, of 0 False 0] wf c
  show ?thesis by simp
qed


subsection \<open>The game of the next turn\<close>

text \<open>
  C10 fails on the code in its routing part. A round completion swaps the player and
  counts the round, but nothing selects a mini-game again: \<^verbatim>\<open>selectGameForPlayer\<close> is
  called by \<^verbatim>\<open>startGame\<close> only. With the default players and settings, a match that has
  started with the opposites game for the five-year-old continues with the opposites game
  for the seven-year-old, whatever the round reported.
\<close>

theorem next_turn_keeps_the_game:
  "gameState defaultMatch = Opposites
   \<and> age (currentPlayer defaultMatch) = 5
   \<and> currentPlayerIndex (onComplete points c defaultMatch) = 1
   \<and> roundsPlayed (onComplete points c defaultMatch) = 1
   \<and> age (currentPlayer (onComplete points c defaultMatch)) = 7
   \<and> gameState (onComplete points c defaultMatch) = Opposites
   \<and> gameState (onComplete points c defaultMatch)
        \<notin> gamesFor (currentPlayer (onComplete points c defaultMatch))"
proof -
  have i: "currentPlayerIndex defaultMatch = 0" "gameState defaultMatch = Opposites"
    "roundsPlayed defaultMatch = 0" "totalRounds (gameSettings defaultMatch) = 10"
    "age (players defaultMatch ! 0) = 5" "players defaultMatch ! 1 = defaultPlayers ! 1"
    by (simp_all add: defaultMatch_def app_defs)
  have o: "players (onComplete points c defaultMatch) ! 1 = defaultPlayers ! 1"
    using onComplete_other[of 1 defaultMatch points c] i by simp
  show ?thesis
    using i o by (simp add: onComplete_frame currentPlayer_def gamesFor_def defaultPlayers_def)
qed


text \<open>
  \<^verbatim>\<open>startGame\<close> itself picks the game for the player at the index that was current
  before the call: with the older player listed first, the younger one starts, with a
  game chosen for the older one.
\<close>

lemma startGame_stale_index:
  "currentPlayerIndex (startGame [defaultPlayers ! 1, defaultPlayers ! 0] settings random initialApp) = 1
   \<and> age (currentPlayer (startGame [defaultPlayers ! 1, defaultPlayers ! 0] settings random initialApp)) = 5
   \<and> gameState (startGame [defaultPlayers ! 1, defaultPlayers ! 0] settings random initialApp)
        \<in> {Multiplication, Wordmath}"
  by (simp add: app_defs currentPlayer_def)


end
